theory Spec2Isabelle
  imports Main "HOL-Library.Word"
begin

section \<open>The symbol table of \<^verbatim>\<open>src/backend/symbols.ts\<close>\<close>

text \<open>
  A shallow embedding of the class \<^verbatim>\<open>SymbolTable\<close>: the decoder of the symbol report
  (\<^verbatim>\<open>getSymbols\<close>), the two relocation entry points (\<^verbatim>\<open>relocate\<close>,
  \<^verbatim>\<open>relocateWithOffset\<close>), the snapshot query (\<^verbatim>\<open>getRelocatedSections\<close>) and the
  lookups (\<^verbatim>\<open>getFunctionAtAddress\<close>, \<^verbatim>\<open>getFunctionByName\<close>).

  Conventions of the embedding.
  \<^item> A JavaScript string is a \<open>string\<close>; every \<open>char\<close> stands for one code unit in the
    range 0..255.
  \<^item> A JavaScript number that holds an address is an \<open>int\<close>, one that holds a byte length
    read by \<^verbatim>\<open>parseInt\<close> from hexadecimal digits is a \<open>nat\<close>. The arithmetic of the class
    is addition, subtraction and comparison of such values; rounding of doubles beyond
    \<open>2^53\<close> is outside the embedding.
  \<^item> \<^verbatim>\<open>null\<close> and \<^verbatim>\<open>undefined\<close> are \<open>None\<close> of an option type; where the source
    compares a \<^verbatim>\<open>null\<close> with an \<^verbatim>\<open>undefined\<close> the comparison is written out.
  \<^item> A thrown \<^verbatim>\<open>Error\<close> is the left summand of a result.
  \<^item> Calls of \<^verbatim>\<open>console.log\<close> have no effect on the table and are left out.
\<close>

subsection \<open>Data\<close>

text \<open>
  \<^verbatim>\<open>SymbolType\<close>, \<^verbatim>\<open>SymbolScope\<close>, \<^verbatim>\<open>Section\<close> and \<^verbatim>\<open>SymbolInformation\<close> are imported by
  the source from \<^verbatim>\<open>../symbols\<close>; their members are the ones the source reads and writes.
  The record fields carry a prefix, since both records have a name, an address and a size.
\<close>

datatype SymbolType = Function | File | Object | Normal

datatype SymbolScope = Local | Global | Neither | Both

record Section =
  sec_name :: string
  sec_address :: int
  sec_size :: nat
  sec_vma :: int
  sec_lma :: int
  sec_fileOffset :: int
  sec_align :: int
  sec_flags :: "string list"

record SymbolInformation =
  sym_address :: int
  sym_base :: int
  sym_type :: SymbolType
  sym_scope :: SymbolScope
  sym_section :: string
  sym_size :: nat
  sym_name :: string
  sym_lines :: "int list option"  \<comment> \<open>only ever written as \<^verbatim>\<open>null\<close> here\<close>
  sym_file :: "string option"
  sym_hidden :: bool

record SymbolTable =
  symbols :: "SymbolInformation list"
  sections :: "Section list"

datatype error =
    ToolInvocationFailed  \<comment> \<open>\<^verbatim>\<open>throw objdump.error\<close>\<close>
  | SectionsNotLoaded  \<comment> \<open>\<^verbatim>\<open>call getSections() before getSymbols()!\<close>\<close>
  | SectionNotFound string string  \<comment> \<open>\<^verbatim>\<open>Section ${sectionName} not found. Symbol: ${name}\<close>\<close>
  | SectionsMismatch nat nat  \<comment> \<open>\<^verbatim>\<open>number of sections mismatch (${length} != ${count})\<close>\<close>

subsection \<open>Strings\<close>

text \<open>The class \<^verbatim>\<open>\s\<close> of a regular expression, which is also what \<^verbatim>\<open>trim\<close> removes:
  tab, line feed, vertical tab, form feed, carriage return, space and no-break space.\<close>

definition isWhiteSpace :: "char \<Rightarrow> bool" where
  "isWhiteSpace c = (c \<in> set [CHR 0x09, CHR 0x0A, CHR 0x0B, CHR 0x0C, CHR 0x0D, CHR 0x20, CHR 0xA0])"

text \<open>The characters \<^verbatim>\<open>.\<close> does not match.\<close>

definition isLineTerminator :: "char \<Rightarrow> bool" where
  "isLineTerminator c = (c = CHR 0x0A \<or> c = CHR 0x0D)"

text \<open>The class \<^verbatim>\<open>[0-9a-f]\<close>.\<close>

definition isHexDigit :: "char \<Rightarrow> bool" where
  "isHexDigit c = (c \<in> set ''0123456789abcdef'')"

definition trim :: "string \<Rightarrow> string" where
  "trim s = rev (dropWhile isWhiteSpace (rev (dropWhile isWhiteSpace s)))"

definition startsWith :: "string \<Rightarrow> string \<Rightarrow> bool" where
  "startsWith s p = (take (length p) s = p)"

text \<open>\<^verbatim>\<open>parseInt(s, 16)\<close> on a string of the class \<^verbatim>\<open>[0-9a-f]+\<close>, the only strings the
  source passes to it: every character is a digit of base 16.\<close>

definition hexValue :: "char \<Rightarrow> nat" where
  "hexValue c = (if of_char c < (97::nat) then of_char c - 48 else of_char c - 87)"

definition parseInt16 :: "string \<Rightarrow> nat" where
  "parseInt16 s = foldl (\<lambda>n c. 16 * n + hexValue c) 0 s"

text \<open>\<^verbatim>\<open>text.replace(/\r/g, '').split('\n')\<close>: the split of the empty text is one empty line.\<close>

fun splitLines :: "string \<Rightarrow> string \<Rightarrow> string list" where
  "splitLines cur [] = [cur]"
| "splitLines cur (c # cs) =
     (if c = CHR 0x0A then cur # splitLines [] cs else splitLines (cur @ [c]) cs)"

definition outputLines :: "string \<Rightarrow> string list" where
  "outputLines stdout = splitLines [] (filter (\<lambda>c. c \<noteq> CHR 0x0D) stdout)"

subsection \<open>The shape of a symbol line\<close>

text \<open>
  \<^verbatim>\<open>SYMBOL_REGEX = /^([0-9a-f]{8})\s([lg !])([w ])([C ])([W ])([I ])([dD ])([FfO ])\s([^\s]+)\s([0-9a-f]+)\s(.*)\r?$/\<close>

  The groups of a match, numbered as in the source. Groups 2 to 8 are one character
  each. The expression is anchored at both ends and has no flag, so \<^verbatim>\<open>$\<close> is the end of
  the line. Its three repetitions are each followed by a character outside their class
  (\<^verbatim>\<open>[^\s]+\<close> and \<^verbatim>\<open>[0-9a-f]+\<close> by \<^verbatim>\<open>\s\<close>, \<^verbatim>\<open>.*\<close> by an optional carriage return and
  the end), so each takes the longest run of its class and a line has at most one match.
\<close>

record symbol_match =
  g1 :: string
  g2 :: char
  g3 :: char
  g4 :: char
  g5 :: char
  g6 :: char
  g7 :: char
  g8 :: char
  g9 :: string
  g10 :: string
  g11 :: string

text \<open>The tail \<^verbatim>\<open>([^\s]+)\s([0-9a-f]+)\s(.*)\r?$\<close>: groups 9, 10 and 11. The character
  after group 9 is the first white space of the rest, the one after group 10 is the
  first character that is no digit and has to be white space.\<close>

definition matchTail :: "string \<Rightarrow> (string \<times> string \<times> string) option" where
  "matchTail r =
     (let sec = takeWhile (\<lambda>c. \<not> isWhiteSpace c) r;
          r1 = dropWhile (\<lambda>c. \<not> isWhiteSpace c) r
      in if sec = [] then None
         else case r1 of
           [] \<Rightarrow> None
         | w1 # r2 \<Rightarrow>
            (let sz = takeWhile isHexDigit r2;
                 r3 = dropWhile isHexDigit r2
             in if sz = [] then None
                else case r3 of
                  [] \<Rightarrow> None
                | w2 # r4 \<Rightarrow>
                   (let nm = takeWhile (\<lambda>c. \<not> isLineTerminator c) r4;
                        r5 = dropWhile (\<lambda>c. \<not> isLineTerminator c) r4
                    in if isWhiteSpace w2 \<and> (r5 = [] \<or> r5 = [CHR 0x0D])
                       then Some (sec, sz, nm)
                       else None)))"

text \<open>The head \<^verbatim>\<open>^([0-9a-f]{8})\s([lg !])([w ])([C ])([W ])([I ])([dD ])([FfO ])\s\<close>, then
  the tail.\<close>

definition SYMBOL_REGEX :: "string \<Rightarrow> symbol_match option" where
  "SYMBOL_REGEX line =
     (let a = take 8 line in
      if length a = 8 \<and> list_all isHexDigit a then
        (case drop 8 line of
           w0 # c2 # c3 # c4 # c5 # c6 # c7 # c8 # w1 # r \<Rightarrow>
             if isWhiteSpace w0 \<and> c2 \<in> set ''lg !'' \<and> c3 \<in> set ''w '' \<and> c4 \<in> set ''C ''
                \<and> c5 \<in> set ''W '' \<and> c6 \<in> set ''I '' \<and> c7 \<in> set ''dD '' \<and> c8 \<in> set ''FfO ''
                \<and> isWhiteSpace w1
             then (case matchTail r of
                     None \<Rightarrow> None
                   | Some (sec, sz, nm) \<Rightarrow>
                       Some \<lparr>g1 = a, g2 = c2, g3 = c3, g4 = c4, g5 = c5, g6 = c6, g7 = c7,
                             g8 = c8, g9 = sec, g10 = sz, g11 = nm\<rparr>)
             else None
         | _ \<Rightarrow> None)
      else None)"

text \<open>\<^verbatim>\<open>TYPE_MAP\<close> and \<^verbatim>\<open>SCOPE_MAP\<close>, read at group 8 and group 2. A match has one of the
  four keys of each table there (lemma \<open>SYMBOL_REGEX_Some\<close> below), so
  the last line of each function is the table's entry for the space.\<close>

definition TYPE_MAP :: "char \<Rightarrow> SymbolType" where
  "TYPE_MAP c =
     (if c = CHR ''F'' then Function
      else if c = CHR ''f'' then File
      else if c = CHR ''O'' then Object
      else Normal)"

definition SCOPE_MAP :: "char \<Rightarrow> SymbolScope" where
  "SCOPE_MAP c =
     (if c = CHR ''l'' then Local
      else if c = CHR ''g'' then Global
      else if c = CHR ''!'' then Both
      else Neither)"

subsection \<open>\<^verbatim>\<open>getSymbols\<close>\<close>

text \<open>\<^verbatim>\<open>this.sections.find((s) => s.name === n)\<close>.\<close>

definition findSection :: "Section list \<Rightarrow> string \<Rightarrow> Section option" where
  "findSection secs n = find (\<lambda>s. sec_name s = n) secs"

text \<open>\<^verbatim>\<open>!currentFile\<close>: the file is \<^verbatim>\<open>null\<close> or the empty string.\<close>

definition noFile :: "string option \<Rightarrow> bool" where
  "noFile currentFile = (currentFile = None \<or> currentFile = Some [])"

text \<open>The update of \<^verbatim>\<open>currentFile\<close> at the top of the loop body (lines 81 to 83).\<close>

definition nextFile :: "string option \<Rightarrow> symbol_match \<Rightarrow> string option" where
  "nextFile currentFile m =
     (if g7 m = CHR ''d'' \<and> g8 m = CHR ''f'' then Some (trim (g11 m)) else currentFile)"

text \<open>The name and the \<^verbatim>\<open>hidden\<close> flag of a match (lines 86 to 92).\<close>

definition symbolName :: "symbol_match \<Rightarrow> string \<times> bool" where
  "symbolName m =
     (let name = trim (g11 m) in
      if startsWith name ''.hidden'' then (trim (drop 7 name), True) else (name, False))"

text \<open>The scope after the fix for LTO (lines 85 and 94 to 96); \<open>currentFile\<close> is the
  variable's value at that line, after the update of lines 81 to 83.\<close>

definition fixedScope :: "string option \<Rightarrow> symbol_match \<Rightarrow> SymbolScope" where
  "fixedScope currentFile m =
     (let scope = SCOPE_MAP (g2 m) in
      if scope = Local \<and> (noFile currentFile \<or> currentFile = Some ''<artificial>'')
      then Global else scope)"

text \<open>The body of the loop for a line that matched: the new \<^verbatim>\<open>currentFile\<close> and the
  symbol pushed, or the error thrown.\<close>

definition decodeSymbol ::
  "Section list \<Rightarrow> string option \<Rightarrow> symbol_match \<Rightarrow> error + (string option \<times> SymbolInformation)" where
  "decodeSymbol secs currentFile0 m =
     (let currentFile = nextFile currentFile0 m;
          type = TYPE_MAP (g8 m);
          (name, hidden) = symbolName m;
          scope = fixedScope currentFile m;
          sectionName = trim (g9 m);
          section = findSection secs sectionName
      in if sectionName \<noteq> ''*ABS*'' \<and> section = None
         then Inl (SectionNotFound sectionName name)
         else Inr (currentFile,
           \<lparr>sym_address = int (parseInt16 (g1 m))
                           - (case section of Some s \<Rightarrow> sec_lma s | None \<Rightarrow> 0),
            sym_base = 0,
            sym_type = type,
            sym_scope = scope,
            sym_section = sectionName,
            sym_size = parseInt16 (g10 m),
            sym_name = name,
            sym_lines = None,
            sym_file = (if scope = Local then currentFile else None),
            sym_hidden = hidden\<rparr>))"

text \<open>The loop over the lines, from the state \<open>(currentFile, this.symbols)\<close>; a line that
  does not match is skipped.\<close>

fun getSymbols_loop ::
  "Section list \<Rightarrow> string option \<Rightarrow> string list \<Rightarrow> SymbolInformation list
     \<Rightarrow> error + SymbolInformation list" where
  "getSymbols_loop secs currentFile [] syms = Inr syms"
| "getSymbols_loop secs currentFile (line # rest) syms =
     (case SYMBOL_REGEX line of
        None \<Rightarrow> getSymbols_loop secs currentFile rest syms
      | Some m \<Rightarrow>
         (case decodeSymbol secs currentFile m of
            Inl e \<Rightarrow> Inl e
          | Inr (currentFile', symbol) \<Rightarrow>
              getSymbols_loop secs currentFile' rest (syms @ [symbol])))"

text \<open>\<^verbatim>\<open>getSymbols\<close>, given \<^verbatim>\<open>this.sections\<close> and what the run of the tool returned: its
  exit status (\<open>None\<close> when it has none) and its output.\<close>

definition getSymbols :: "Section list \<Rightarrow> int option \<Rightarrow> string \<Rightarrow> error + SymbolInformation list" where
  "getSymbols secs status stdout =
     (if length secs = 0 then Inl SectionsNotLoaded
      else if status \<noteq> Some 0 then Inl ToolInvocationFailed
      else getSymbols_loop secs None (outputLines stdout) [])"

text \<open>Three notions for stating properties of the scan. A line names an unknown section
  when it matches and the test of line 100 holds for it; \<open>fileAfter\<close> is the value of
  \<^verbatim>\<open>currentFile\<close> after the loop has run over some lines; \<open>pushedBy\<close> is the number of
  symbols these lines push, one for each line that matches.\<close>

definition unknownSection :: "Section list \<Rightarrow> string \<Rightarrow> bool" where
  "unknownSection secs line =
     (case SYMBOL_REGEX line of
        None \<Rightarrow> False
      | Some m \<Rightarrow> trim (g9 m) \<noteq> ''*ABS*'' \<and> findSection secs (trim (g9 m)) = None)"

definition fileAfter :: "string option \<Rightarrow> string list \<Rightarrow> string option" where
  "fileAfter currentFile ls =
     foldl (\<lambda>cf line. case SYMBOL_REGEX line of None \<Rightarrow> cf | Some m \<Rightarrow> nextFile cf m)
       currentFile ls"

definition pushedBy :: "string list \<Rightarrow> nat" where
  "pushedBy ls = length (filter (\<lambda>line. SYMBOL_REGEX line \<noteq> None) ls)"

text \<open>The constructor, once \<^verbatim>\<open>getSections\<close> has stored \<open>secs\<close> in \<^verbatim>\<open>this.sections\<close>: the table
  exists when \<^verbatim>\<open>getSymbols\<close> has not thrown.\<close>

definition newSymbolTable :: "Section list \<Rightarrow> int option \<Rightarrow> string \<Rightarrow> error + SymbolTable" where
  "newSymbolTable secs status stdout =
     (case getSymbols secs status stdout of
        Inl e \<Rightarrow> Inl e
      | Inr syms \<Rightarrow> Inr \<lparr>symbols = syms, sections = secs\<rparr>)"

subsection \<open>\<^verbatim>\<open>relocate\<close> and \<^verbatim>\<open>relocateWithOffset\<close>\<close>

text \<open>\<^verbatim>\<open>const section = this.sections.find((s) => s.name === n); if(section) section.address = a\<close>:
  the first section of that name, when there is one, gets the address.\<close>

fun setSectionAddress :: "string \<Rightarrow> int \<Rightarrow> Section list \<Rightarrow> Section list" where
  "setSectionAddress n a [] = []"
| "setSectionAddress n a (s # ss) =
     (if sec_name s = n then s\<lparr>sec_address := a\<rparr> # ss else s # setSectionAddress n a ss)"

text \<open>The first \<^verbatim>\<open>forEach\<close> of \<^verbatim>\<open>relocate\<close>. Its argument is a list of values: the caller's
  records are read for their name and address and are no objects of the table.\<close>

definition relocateSections :: "Section list \<Rightarrow> Section list \<Rightarrow> Section list" where
  "relocateSections relocatedSections secs =
     foldl (\<lambda>secs relocatedSection.
              setSectionAddress (sec_name relocatedSection) (sec_address relocatedSection) secs)
       secs relocatedSections"

text \<open>The body of the second \<^verbatim>\<open>forEach\<close>, the same in both entry points.\<close>

definition updateBase :: "Section list \<Rightarrow> SymbolInformation \<Rightarrow> SymbolInformation" where
  "updateBase secs symbol =
     (case findSection secs (sym_section symbol) of
        Some section \<Rightarrow> symbol\<lparr>sym_base := sec_address section\<rparr>
      | None \<Rightarrow> symbol)"

definition relocate :: "Section list \<Rightarrow> SymbolTable \<Rightarrow> SymbolTable" where
  "relocate relocatedSections t =
     (let secs = relocateSections relocatedSections (sections t)
      in \<lparr>symbols = map (updateBase secs) (symbols t), sections = secs\<rparr>)"

text \<open>\<^verbatim>\<open>section.flags.find((v) => v === "ALLOC") && section.size > 0\<close>, the test of
  \<^verbatim>\<open>relocateWithOffset\<close> and of \<^verbatim>\<open>getRelocatedSections\<close>, on the flags and the size of a
  section (\<^verbatim>\<open>flags\<close> is an array in every section, so the guard \<^verbatim>\<open>section.flags &&\<close> of
  the former holds).\<close>

definition isAllocated :: "string list \<Rightarrow> nat \<Rightarrow> bool" where
  "isAllocated flags sz = (find (\<lambda>v. v = ''ALLOC'') flags \<noteq> None \<and> sz > 0)"

definition relocateWithOffset :: "int \<Rightarrow> SymbolTable \<Rightarrow> SymbolTable" where
  "relocateWithOffset loadOffset t =
     (let secs = map (\<lambda>section.
                   if isAllocated (sec_flags section) (sec_size section)
                   then section\<lparr>sec_address := sec_vma section + loadOffset\<rparr>
                   else section) (sections t)
      in \<lparr>symbols = map (updateBase secs) (symbols t), sections = secs\<rparr>)"

text \<open>A caller's relocation call, and a sequence of them in the order of the calls.\<close>

datatype directive = Relocate "Section list" | RelocateWithOffset int

fun applyDirective :: "directive \<Rightarrow> SymbolTable \<Rightarrow> SymbolTable" where
  "applyDirective (Relocate relocatedSections) t = relocate relocatedSections t"
| "applyDirective (RelocateWithOffset loadOffset) t = relocateWithOffset loadOffset t"

definition applyDirectives :: "directive list \<Rightarrow> SymbolTable \<Rightarrow> SymbolTable" where
  "applyDirectives ds t = foldl (\<lambda>t d. applyDirective d t) t ds"

subsection \<open>\<^verbatim>\<open>getFunctionAtAddress\<close> and \<^verbatim>\<open>getFunctionByName\<close>\<close>

definition symAddress :: "bool \<Rightarrow> SymbolInformation \<Rightarrow> int" where
  "symAddress relocated s = (if relocated then sym_address s + sym_base s else sym_address s)"

text \<open>The predicate of the filter in \<^verbatim>\<open>getFunctionAtAddress\<close>.\<close>

definition functionAt :: "int \<Rightarrow> bool \<Rightarrow> SymbolInformation \<Rightarrow> bool" where
  "functionAt address relocated s =
     (sym_type s = Function \<and> symAddress relocated s \<le> address
      \<and> symAddress relocated s + int (sym_size s) > address)"

definition getFunctionAtAddress :: "SymbolTable \<Rightarrow> int \<Rightarrow> bool \<Rightarrow> SymbolInformation option" where
  "getFunctionAtAddress t address relocated =
     (case filter (functionAt address relocated) (symbols t) of
        [] \<Rightarrow> None
      | s # _ \<Rightarrow> Some s)"

text \<open>\<^verbatim>\<open>s.file === file\<close>: \<^verbatim>\<open>s.file\<close> is a string or \<^verbatim>\<open>null\<close>, the optional parameter
  \<^verbatim>\<open>file\<close> is a string or \<^verbatim>\<open>undefined\<close>, and \<^verbatim>\<open>null === undefined\<close> is false.\<close>

definition sameFile :: "string option \<Rightarrow> string option \<Rightarrow> bool" where
  "sameFile f file = (case f of None \<Rightarrow> False | Some a \<Rightarrow> (case file of None \<Rightarrow> False | Some b \<Rightarrow> a = b))"

definition getFunctionByName :: "SymbolTable \<Rightarrow> string \<Rightarrow> string option \<Rightarrow> SymbolInformation option" where
  "getFunctionByName t name file =
     (case filter (\<lambda>s. sym_type s = Function \<and> sym_scope s = Local \<and> sym_name s = name
                        \<and> sameFile (sym_file s) file) (symbols t) of
        s # _ \<Rightarrow> Some s
      | [] \<Rightarrow>
         (case filter (\<lambda>s. sym_type s = Function \<and> sym_scope s \<noteq> Local \<and> sym_name s = name)
                 (symbols t) of
            s # _ \<Rightarrow> Some s
          | [] \<Rightarrow> None))"

subsection \<open>\<^verbatim>\<open>getRelocatedSections\<close>, on a store\<close>

text \<open>
  \<^verbatim>\<open>getRelocatedSections\<close> builds new records with \<^verbatim>\<open>{ ...section, address: a }\<close>, and
  what it promises is about records and references. So it is embedded on a store: a
  reference is a number, the objects of each kind are a function from references, and
  the references below \<open>allocated\<close> are the ones in use. The spread copies every member of
  the record; the member \<^verbatim>\<open>flags\<close> is a reference to an array, so the copy shares the array
  with its original. The address of a record is a number, or \<^verbatim>\<open>undefined\<close> after a read
  beyond the end of the typed array.
\<close>

type_synonym ref = nat

record SectionObject =
  o_name :: string
  o_address :: "int option"
  o_size :: nat
  o_vma :: int
  o_lma :: int
  o_fileOffset :: int
  o_align :: int
  o_flags :: ref

record store =
  sectionObjects :: "ref \<Rightarrow> SectionObject"
  flagArrays :: "ref \<Rightarrow> string list"
  symbolObjects :: "ref \<Rightarrow> SymbolInformation"
  allocated :: nat
  this_sections :: "ref list"
  this_symbols :: "ref list"

text \<open>A new record: the next free reference, with the object stored there.\<close>

definition newSectionObject :: "SectionObject \<Rightarrow> store \<Rightarrow> store \<times> ref" where
  "newSectionObject obj st =
     (st\<lparr>sectionObjects := (sectionObjects st)(allocated st := obj),
         allocated := allocated st + 1\<rparr>,
      allocated st)"

text \<open>\<^verbatim>\<open>relocatedBases[i]\<close> on a \<^verbatim>\<open>Uint32Array\<close>.\<close>

definition readUint32 :: "32 word list \<Rightarrow> nat \<Rightarrow> int option" where
  "readUint32 relocatedBases i =
     (if i < length relocatedBases then Some (uint (relocatedBases ! i)) else None)"

text \<open>The loop over \<^verbatim>\<open>this.sections\<close>, from the state \<open>(count, sections)\<close> of the two
  local variables.\<close>

fun getRelocatedSections_loop ::
  "32 word list \<Rightarrow> ref list \<Rightarrow> store \<Rightarrow> nat \<Rightarrow> ref list \<Rightarrow> store \<times> nat \<times> ref list" where
  "getRelocatedSections_loop relocatedBases [] st count out = (st, count, out)"
| "getRelocatedSections_loop relocatedBases (r # rest) st count out =
     (let section = sectionObjects st r in
      if isAllocated (flagArrays st (o_flags section)) (o_size section)
      then (let (st', r') =
                  newSectionObject (section\<lparr>o_address := readUint32 relocatedBases count\<rparr>) st
            in getRelocatedSections_loop relocatedBases rest st' (count + 1) (out @ [r']))
      else (let (st', r') = newSectionObject (section\<lparr>o_address := Some (o_vma section)\<rparr>) st
            in getRelocatedSections_loop relocatedBases rest st' count (out @ [r'])))"

definition getRelocatedSections :: "32 word list \<Rightarrow> store \<Rightarrow> store \<times> (error + ref list)" where
  "getRelocatedSections relocatedBases st =
     (let (st', count, out) = getRelocatedSections_loop relocatedBases (this_sections st) st 0 []
      in (st',
          if count \<noteq> length relocatedBases
          then Inl (SectionsMismatch (length relocatedBases) count)
          else Inr out))"

text \<open>Two notions for stating properties of \<^verbatim>\<open>getRelocatedSections\<close>. A stored section
  qualifies when its flags have \<open>ALLOC\<close> and its size is not 0. In a store of the program
  every reference the table holds is in use; new records get references that are not.\<close>

definition qualifying :: "store \<Rightarrow> ref \<Rightarrow> bool" where
  "qualifying st r =
     (''ALLOC'' \<in> set (flagArrays st (o_flags (sectionObjects st r)))
      \<and> o_size (sectionObjects st r) \<noteq> 0)"

definition sectionsInUse :: "store \<Rightarrow> bool" where
  "sectionsInUse st = list_all (\<lambda>r. r < allocated st) (this_sections st)"

text \<open>The record the loop pushes for the stored section \<open>r\<close> when its counter is
  \<open>count\<close>.\<close>

definition pushed :: "32 word list \<Rightarrow> store \<Rightarrow> nat \<Rightarrow> ref \<Rightarrow> SectionObject" where
  "pushed relocatedBases st count r =
     (sectionObjects st r)
       \<lparr>o_address := (if qualifying st r then readUint32 relocatedBases count
                       else Some (o_vma (sectionObjects st r)))\<rparr>"

text \<open>The table of the other subsections, read off a store: a stored section as a
  \<open>Section\<close>, when its address is a number, and the table when that holds for every
  stored section.\<close>

definition sectionOf :: "store \<Rightarrow> ref \<Rightarrow> Section option" where
  "sectionOf st r =
     (let obj = sectionObjects st r in
      case o_address obj of
        None \<Rightarrow> None
      | Some a \<Rightarrow>
          Some \<lparr>sec_name = o_name obj, sec_address = a, sec_size = o_size obj,
                sec_vma = o_vma obj, sec_lma = o_lma obj, sec_fileOffset = o_fileOffset obj,
                sec_align = o_align obj, sec_flags = flagArrays st (o_flags obj)\<rparr>)"

definition tableOf :: "store \<Rightarrow> SymbolTable option" where
  "tableOf st =
     (case those (map (sectionOf st) (this_sections st)) of
        None \<Rightarrow> None
      | Some secs \<Rightarrow>
          Some \<lparr>symbols = map (symbolObjects st) (this_symbols st), sections = secs\<rparr>)"

subsection \<open>The inputs of the scenarios\<close>

text \<open>The section and the symbol line of the first scenario; the file offset and the
  alignment of the section are not given by it.\<close>

definition scenario_section :: "int \<Rightarrow> int \<Rightarrow> Section" where
  "scenario_section fo al =
     \<lparr>sec_name = ''.text'', sec_address = 0, sec_size = 0x100, sec_vma = 0x1000,
      sec_lma = 0x1000, sec_fileOffset = fo, sec_align = al, sec_flags = [''ALLOC'']\<rparr>"

definition scenario_line :: string where
  "scenario_line = ''00001050 g     F .text'' @ [CHR 0x09] @ ''00000020 foo''"

definition scenario_foo :: "int \<Rightarrow> SymbolInformation" where
  "scenario_foo b =
     \<lparr>sym_address = 0x50, sym_base = b, sym_type = Function, sym_scope = Global,
      sym_section = ''.text'', sym_size = 0x20, sym_name = ''foo'', sym_lines = None,
      sym_file = None, sym_hidden = False\<rparr>"

text \<open>An output of the tool under link-time optimisation: the marker of the synthetic
  compile unit, then a function with the local flag.\<close>

definition lto_marker_line :: string where
  "lto_marker_line = ''00000000 l    df *ABS*'' @ [CHR 0x09] @ ''00000000 <artificial>''"

definition lto_function_line :: string where
  "lto_function_line = ''00001010 l     F .text'' @ [CHR 0x09] @ ''00000004 bar''"

definition lto_stdout :: string where
  "lto_stdout = lto_marker_line @ [CHR 0x0A] @ lto_function_line @ [CHR 0x0A]"

text \<open>The same function line as the whole output, with no marker before it.\<close>

definition lto_unmarked_stdout :: string where
  "lto_unmarked_stdout = lto_function_line @ [CHR 0x0A]"

definition lto_unmarked_decoded :: "SymbolInformation list" where
  "lto_unmarked_decoded =
     [\<lparr>sym_address = 0x10, sym_base = 0, sym_type = Function, sym_scope = Global,
       sym_section = ''.text'', sym_size = 4, sym_name = ''bar'',
       sym_lines = None, sym_file = None, sym_hidden = False\<rparr>]"

definition lto_function_groups :: symbol_match where
  "lto_function_groups =
     \<lparr>g1 = ''00001010'', g2 = CHR ''l'', g3 = CHR '' '', g4 = CHR '' '', g5 = CHR '' '',
      g6 = CHR '' '', g7 = CHR '' '', g8 = CHR ''F'', g9 = ''.text'',
      g10 = ''00000004'', g11 = ''bar''\<rparr>"

definition lto_decoded :: "SymbolInformation list" where
  "lto_decoded =
     [\<lparr>sym_address = 0, sym_base = 0, sym_type = File, sym_scope = Global,
       sym_section = ''*ABS*'', sym_size = 0, sym_name = ''<artificial>'',
       sym_lines = None, sym_file = None, sym_hidden = False\<rparr>,
      \<lparr>sym_address = 0x10, sym_base = 0, sym_type = Function, sym_scope = Global,
       sym_section = ''.text'', sym_size = 4, sym_name = ''bar'',
       sym_lines = None, sym_file = None, sym_hidden = False\<rparr>]"

text \<open>A symbol line that names a section the table does not have.\<close>

definition orphan_line :: string where
  "orphan_line = ''00002000 g     O .data'' @ [CHR 0x09] @ ''00000004 counter''"

definition orphan_groups :: symbol_match where
  "orphan_groups =
     \<lparr>g1 = ''00002000'', g2 = CHR ''g'', g3 = CHR '' '', g4 = CHR '' '', g5 = CHR '' '',
      g6 = CHR '' '', g7 = CHR '' '', g8 = CHR ''O'', g9 = ''.data'',
      g10 = ''00000004'', g11 = ''counter''\<rparr>"

text \<open>A section that carries the name \<^verbatim>\<open>*ABS*\<close>, and an absolute symbol.\<close>

definition abs_section :: Section where
  "abs_section =
     \<lparr>sec_name = ''*ABS*'', sec_address = 0, sec_size = 0x10, sec_vma = 0,
      sec_lma = 0, sec_fileOffset = 0, sec_align = 1, sec_flags = [''ALLOC'']\<rparr>"

definition abs_line :: string where
  "abs_line = ''00000010 g       *ABS*'' @ [CHR 0x09] @ ''00000000 bar''"

definition abs_symbol :: SymbolInformation where
  "abs_symbol =
     \<lparr>sym_address = 0x10, sym_base = 0, sym_type = Normal, sym_scope = Global,
      sym_section = ''*ABS*'', sym_size = 0, sym_name = ''bar'', sym_lines = None,
      sym_file = None, sym_hidden = False\<rparr>"

text \<open>A section the relocation of the scenarios does not name.\<close>

definition bss_section :: Section where
  "bss_section =
     \<lparr>sec_name = ''.bss'', sec_address = 0x7000, sec_size = 0x40, sec_vma = 0x3000,
      sec_lma = 0x3000, sec_fileOffset = 0, sec_align = 4, sec_flags = [''ALLOC'']\<rparr>"

text \<open>Two functions of the name \<open>helper\<close>: one local to the file \<open>a.c\<close>, one global.\<close>

definition helper_local :: SymbolInformation where
  "helper_local =
     \<lparr>sym_address = 0x10, sym_base = 0, sym_type = Function, sym_scope = Local,
      sym_section = ''.text'', sym_size = 8, sym_name = ''helper'', sym_lines = None,
      sym_file = Some ''a.c'', sym_hidden = False\<rparr>"

definition helper_global :: SymbolInformation where
  "helper_global =
     \<lparr>sym_address = 0x40, sym_base = 0, sym_type = Function, sym_scope = Global,
      sym_section = ''.text'', sym_size = 8, sym_name = ''helper'', sym_lines = None,
      sym_file = None, sym_hidden = False\<rparr>"

text \<open>A function of size 0.\<close>

definition empty_function :: SymbolInformation where
  "empty_function =
     \<lparr>sym_address = 0x60, sym_base = 0, sym_type = Function, sym_scope = Global,
      sym_section = ''.text'', sym_size = 0, sym_name = ''stub'', sym_lines = None,
      sym_file = None, sym_hidden = False\<rparr>"

text \<open>A store with two sections, \<open>.text\<close> with the flag \<open>ALLOC\<close> and \<open>.comment\<close> without
  it, at the references 0 and 1; their flag arrays are at 2 and 3.\<close>

definition text_object :: SectionObject where
  "text_object =
     \<lparr>o_name = ''.text'', o_address = Some 0, o_size = 0x100, o_vma = 0x1000, o_lma = 0x1000,
      o_fileOffset = 0x34, o_align = 4, o_flags = 2\<rparr>"

definition comment_object :: SectionObject where
  "comment_object =
     \<lparr>o_name = ''.comment'', o_address = Some 0, o_size = 0x12, o_vma = 0, o_lma = 0,
      o_fileOffset = 0x134, o_align = 1, o_flags = 3\<rparr>"

definition two_sections :: store where
  "two_sections =
     \<lparr>sectionObjects = (\<lambda>r. if r = 0 then text_object else comment_object),
      flagArrays = (\<lambda>r. if r = 2 then [''CONTENTS'', ''ALLOC'', ''LOAD'', ''CODE'']
                          else [''CONTENTS'', ''READONLY'']),
      symbolObjects = (\<lambda>r. scenario_foo 0),
      allocated = 4,
      this_sections = [0, 1],
      this_symbols = []\<rparr>"

section \<open>Properties\<close>

subsection \<open>What a match says about its line\<close>

text \<open>The embedding of \<^verbatim>\<open>SYMBOL_REGEX\<close> accepts exactly the lines that are a run of eight
  digits, white space, the seven flags, white space, a run without white space, white
  space, a run of digits, white space, and a rest without line terminator, with an
  optional carriage return at the end; the groups are these runs.\<close>

lemma dropWhile_Cons_head: "dropWhile P xs = y # ys \<Longrightarrow> \<not> P y"
  using hd_dropWhile [of P xs] by auto

lemma all_takeWhile: "list_all P (takeWhile P xs)"
  by (induction xs) auto

lemma matchTail_Some:
  assumes "matchTail r = Some (sec, sz, nm)"
  shows "sec \<noteq> [] \<and> list_all (\<lambda>c. \<not> isWhiteSpace c) sec
       \<and> sz \<noteq> [] \<and> list_all isHexDigit sz
       \<and> list_all (\<lambda>c. \<not> isLineTerminator c) nm
       \<and> (\<exists>w1 w2 e. isWhiteSpace w1 \<and> isWhiteSpace w2 \<and> (e = [] \<or> e = [CHR 0x0D])
            \<and> r = sec @ w1 # sz @ w2 # nm @ e)"
proof -
  let ?sec = "takeWhile (\<lambda>c. \<not> isWhiteSpace c) r"
  from assms have sec: "?sec \<noteq> []"
    by (auto simp: matchTail_def Let_def split: if_splits)
  with assms obtain w1 r2 where r1: "dropWhile (\<lambda>c. \<not> isWhiteSpace c) r = w1 # r2"
    by (auto simp: matchTail_def Let_def split: if_splits list.splits)
  let ?sz = "takeWhile isHexDigit r2"
  from assms sec r1 have sz: "?sz \<noteq> []"
    by (auto simp: matchTail_def Let_def split: if_splits)
  with assms sec r1 obtain w2 r4 where r3: "dropWhile isHexDigit r2 = w2 # r4"
    by (auto simp: matchTail_def Let_def split: if_splits list.splits)
  let ?nm = "takeWhile (\<lambda>c. \<not> isLineTerminator c) r4"
  let ?e = "dropWhile (\<lambda>c. \<not> isLineTerminator c) r4"
  from assms sec r1 sz r3 have fin: "isWhiteSpace w2 \<and> (?e = [] \<or> ?e = [CHR 0x0D])"
    and res: "sec = ?sec" "sz = ?sz" "nm = ?nm"
    by (auto simp: matchTail_def Let_def split: if_splits)
  from dropWhile_Cons_head [OF r1] have w1: "isWhiteSpace w1" by simp
  have "r = ?sec @ dropWhile (\<lambda>c. \<not> isWhiteSpace c) r" by simp
  also have "\<dots> = ?sec @ w1 # (?sz @ dropWhile isHexDigit r2)" by (simp add: r1)
  also have "\<dots> = ?sec @ w1 # ?sz @ w2 # (?nm @ ?e)" by (simp add: r3)
  finally have "r = ?sec @ w1 # ?sz @ w2 # ?nm @ ?e" .
  then have shape: "r = sec @ w1 # sz @ w2 # nm @ ?e" by (simp only: res)
  have classes: "list_all (\<lambda>c. \<not> isWhiteSpace c) sec" "list_all isHexDigit sz"
    "list_all (\<lambda>c. \<not> isLineTerminator c) nm"
    unfolding res by (rule all_takeWhile)+
  have ne: "sec \<noteq> []" "sz \<noteq> []"
    unfolding res by (rule sec, rule sz)
  from w1 fin shape
  have "\<exists>w1 w2 e. isWhiteSpace w1 \<and> isWhiteSpace w2 \<and> (e = [] \<or> e = [CHR 0x0D])
            \<and> r = sec @ w1 # sz @ w2 # nm @ e"
    by blast
  with classes ne show ?thesis by blast
qed

lemma SYMBOL_REGEX_Some:
  assumes "SYMBOL_REGEX line = Some m"
  shows "length (g1 m) = 8 \<and> list_all isHexDigit (g1 m)
       \<and> g2 m \<in> set ''lg !'' \<and> g3 m \<in> set ''w '' \<and> g4 m \<in> set ''C '' \<and> g5 m \<in> set ''W ''
       \<and> g6 m \<in> set ''I '' \<and> g7 m \<in> set ''dD '' \<and> g8 m \<in> set ''FfO ''
       \<and> g9 m \<noteq> [] \<and> list_all (\<lambda>c. \<not> isWhiteSpace c) (g9 m)
       \<and> g10 m \<noteq> [] \<and> list_all isHexDigit (g10 m)
       \<and> list_all (\<lambda>c. \<not> isLineTerminator c) (g11 m)
       \<and> (\<exists>w0 w1 w2 w3 e.
             isWhiteSpace w0 \<and> isWhiteSpace w1 \<and> isWhiteSpace w2 \<and> isWhiteSpace w3
             \<and> (e = [] \<or> e = [CHR 0x0D])
             \<and> line = g1 m @ [w0, g2 m, g3 m, g4 m, g5 m, g6 m, g7 m, g8 m, w1]
                        @ g9 m @ w2 # g10 m @ w3 # g11 m @ e)"
proof -
  from assms have a: "length (take 8 line) = 8" "list_all isHexDigit (take 8 line)"
    by (auto simp: SYMBOL_REGEX_def Let_def split: if_splits)
  with assms obtain w0 c2 c3 c4 c5 c6 c7 c8 w1 r where
    d: "drop 8 line = w0 # c2 # c3 # c4 # c5 # c6 # c7 # c8 # w1 # r"
    by (simp add: SYMBOL_REGEX_def Let_def split: list.splits)
  with assms a have fl: "isWhiteSpace w0" "c2 \<in> set ''lg !''" "c3 \<in> set ''w ''"
    "c4 \<in> set ''C ''" "c5 \<in> set ''W ''" "c6 \<in> set ''I ''" "c7 \<in> set ''dD ''"
    "c8 \<in> set ''FfO ''" "isWhiteSpace w1"
    by (simp_all add: SYMBOL_REGEX_def Let_def split: if_splits)
  with assms a d obtain sec sz nm where
    t: "matchTail r = Some (sec, sz, nm)"
    and m: "m = \<lparr>g1 = take 8 line, g2 = c2, g3 = c3, g4 = c4, g5 = c5, g6 = c6, g7 = c7,
                 g8 = c8, g9 = sec, g10 = sz, g11 = nm\<rparr>"
    by (simp add: SYMBOL_REGEX_def Let_def split: option.splits prod.splits)
  have "line = take 8 line @ drop 8 line" by simp
  with d have l: "line = take 8 line @ [w0, c2, c3, c4, c5, c6, c7, c8, w1] @ r" by simp
  from matchTail_Some [OF t] obtain w2 w3 e where
    "isWhiteSpace w2" "isWhiteSpace w3" "e = [] \<or> e = [CHR 0x0D]"
    "r = sec @ w2 # sz @ w3 # nm @ e"
    by blast
  with l have "\<exists>w0 w1 w2 w3 e.
             isWhiteSpace w0 \<and> isWhiteSpace w1 \<and> isWhiteSpace w2 \<and> isWhiteSpace w3
             \<and> (e = [] \<or> e = [CHR 0x0D])
             \<and> line = g1 m @ [w0, g2 m, g3 m, g4 m, g5 m, g6 m, g7 m, g8 m, w1]
                        @ g9 m @ w2 # g10 m @ w3 # g11 m @ e"
    using fl(1,9) unfolding m by (intro exI [of _ w0] exI [of _ w1] exI [of _ w2] exI [of _ w3] exI [of _ e]) simp
  with a fl matchTail_Some [OF t] show ?thesis unfolding m by simp
qed

lemma trim_no_space: "list_all (\<lambda>c. \<not> isWhiteSpace c) s \<Longrightarrow> trim s = s"
proof (cases s rule: rev_cases)
  case Nil
  then show ?thesis by (simp add: trim_def)
next
  case (snoc ys y)
  assume "list_all (\<lambda>c. \<not> isWhiteSpace c) s"
  with snoc have y: "\<not> isWhiteSpace y" and h: "s \<noteq> [] \<and> \<not> isWhiteSpace (hd s)"
    by (cases ys; simp)+
  from h have "dropWhile isWhiteSpace s = s" by (cases s) auto
  with snoc y show ?thesis by (simp add: trim_def)
qed

lemma SYMBOL_REGEX_section: "SYMBOL_REGEX line = Some m \<Longrightarrow> trim (g9 m) = g9 m"
  using SYMBOL_REGEX_Some [of line m] by (simp add: trim_no_space)

lemma SYMBOL_REGEX_maps:
  assumes "SYMBOL_REGEX line = Some m"
  shows "(TYPE_MAP (g8 m) = Normal \<longleftrightarrow> g8 m = CHR '' '')
       \<and> (SCOPE_MAP (g2 m) = Neither \<longleftrightarrow> g2 m = CHR '' '')"
  using SYMBOL_REGEX_Some [OF assms] by (auto simp: TYPE_MAP_def SCOPE_MAP_def)


lemma takeWhile_run:
  "list_all P xs \<Longrightarrow> \<not> P y \<Longrightarrow> takeWhile P (xs @ y # ys) = xs"
  by (induction xs) auto

lemma dropWhile_run:
  "list_all P xs \<Longrightarrow> \<not> P y \<Longrightarrow> dropWhile P (xs @ y # ys) = y # ys"
  by (induction xs) auto

lemma takeWhile_all: "list_all P xs \<Longrightarrow> takeWhile P xs = xs"
  by (induction xs) auto

lemma dropWhile_all: "list_all P xs \<Longrightarrow> dropWhile P xs = []"
  by (induction xs) auto

lemma space_no_digit: "isWhiteSpace c \<Longrightarrow> \<not> isHexDigit c"
  by (auto simp: isWhiteSpace_def isHexDigit_def)

lemma matchTail_complete:
  assumes "sec \<noteq> []" "list_all (\<lambda>c. \<not> isWhiteSpace c) sec" "isWhiteSpace w2"
    and "sz \<noteq> []" "list_all isHexDigit sz" "isWhiteSpace w3"
    and "list_all (\<lambda>c. \<not> isLineTerminator c) nm" "e = [] \<or> e = [CHR 0x0D]"
  shows "matchTail (sec @ w2 # sz @ w3 # nm @ e) = Some (sec, sz, nm)"
proof -
  have 1: "takeWhile (\<lambda>c. \<not> isWhiteSpace c) (sec @ w2 # sz @ w3 # nm @ e) = sec"
    "dropWhile (\<lambda>c. \<not> isWhiteSpace c) (sec @ w2 # sz @ w3 # nm @ e) = w2 # sz @ w3 # nm @ e"
    using assms(2,3) by (simp_all add: takeWhile_run dropWhile_run)
  have 2: "takeWhile isHexDigit (sz @ w3 # nm @ e) = sz"
    "dropWhile isHexDigit (sz @ w3 # nm @ e) = w3 # nm @ e"
    using assms(5,6) by (simp_all add: takeWhile_run dropWhile_run space_no_digit)
  have 3: "takeWhile (\<lambda>c. \<not> isLineTerminator c) (nm @ e) = nm"
    "dropWhile (\<lambda>c. \<not> isLineTerminator c) (nm @ e) = e"
    using assms(7,8)
    by (auto simp: takeWhile_run dropWhile_run takeWhile_all dropWhile_all isLineTerminator_def)
  show ?thesis
    unfolding matchTail_def Let_def 1 2 3 list.case using assms(1,4,6,8) by simp
qed

lemma SYMBOL_REGEX_complete:
  assumes "length a = 8" "list_all isHexDigit a" "isWhiteSpace w0"
    and "c2 \<in> set ''lg !''" "c3 \<in> set ''w ''" "c4 \<in> set ''C ''" "c5 \<in> set ''W ''"
    and "c6 \<in> set ''I ''" "c7 \<in> set ''dD ''" "c8 \<in> set ''FfO ''" "isWhiteSpace w1"
    and "sec \<noteq> []" "list_all (\<lambda>c. \<not> isWhiteSpace c) sec" "isWhiteSpace w2"
    and "sz \<noteq> []" "list_all isHexDigit sz" "isWhiteSpace w3"
    and "list_all (\<lambda>c. \<not> isLineTerminator c) nm" "e = [] \<or> e = [CHR 0x0D]"
  shows "SYMBOL_REGEX (a @ [w0, c2, c3, c4, c5, c6, c7, c8, w1] @ sec @ w2 # sz @ w3 # nm @ e)
           = Some \<lparr>g1 = a, g2 = c2, g3 = c3, g4 = c4, g5 = c5, g6 = c6, g7 = c7, g8 = c8,
                   g9 = sec, g10 = sz, g11 = nm\<rparr>"
proof -
  let ?r = "sec @ w2 # sz @ w3 # nm @ e"
  let ?line = "a @ [w0, c2, c3, c4, c5, c6, c7, c8, w1] @ ?r"
  from assms(1) have h: "take 8 ?line = a" "drop 8 ?line = [w0, c2, c3, c4, c5, c6, c7, c8, w1] @ ?r"
    by simp_all
  have t: "matchTail ?r = Some (sec, sz, nm)"
    by (rule matchTail_complete) (rule assms)+
  show ?thesis
    unfolding SYMBOL_REGEX_def Let_def h
    using assms(1-11) t by simp
qed

subsection \<open>The first scenario\<close>

lemma scenario_match:
  "SYMBOL_REGEX scenario_line =
     Some \<lparr>g1 = ''00001050'', g2 = CHR ''g'', g3 = CHR '' '', g4 = CHR '' '', g5 = CHR '' '',
           g6 = CHR '' '', g7 = CHR '' '', g8 = CHR ''F'', g9 = ''.text'',
           g10 = ''00000020'', g11 = ''foo''\<rparr>"
  by code_simp

lemma scenario_lines: "outputLines (scenario_line @ [CHR 0x0A]) = [scenario_line, []]"
  by code_simp

lemma no_match_empty: "SYMBOL_REGEX [] = None"
  by code_simp

lemma scenario_decode:
  "decodeSymbol [scenario_section fo al] None
     \<lparr>g1 = ''00001050'', g2 = CHR ''g'', g3 = CHR '' '', g4 = CHR '' '', g5 = CHR '' '',
      g6 = CHR '' '', g7 = CHR '' '', g8 = CHR ''F'', g9 = ''.text'',
      g10 = ''00000020'', g11 = ''foo''\<rparr>
   = Inr (None, scenario_foo 0)"
  by (simp add: decodeSymbol_def scenario_section_def scenario_foo_def nextFile_def
      TYPE_MAP_def symbolName_def fixedScope_def SCOPE_MAP_def trim_def isWhiteSpace_def
      findSection_def startsWith_def parseInt16_def hexValue_def)

lemma scenario_table:
  "newSymbolTable [scenario_section fo al] (Some 0) (scenario_line @ [CHR 0x0A])
     = Inr \<lparr>symbols = [scenario_foo 0], sections = [scenario_section fo al]\<rparr>"
  by (simp add: newSymbolTable_def getSymbols_def scenario_lines scenario_match
      no_match_empty scenario_decode)

text \<open>
  Claim C1. The table built from the one section \<open>.text\<close> (vma and lma \<open>0x1000\<close>, size
  \<open>0x100\<close>, flag \<open>ALLOC\<close>) and the output whose one symbol line reads address \<open>0x1050\<close>,
  scope global, type function, section \<open>.text\<close>, size \<open>0x20\<close>, name \<open>foo\<close>, holds the
  symbol \<open>foo\<close> with address \<open>0x50\<close> and base \<open>0\<close>. After \<open>relocateWithOffset 0x8000\<close> the
  address of \<open>.text\<close> is \<open>0x9000\<close>, the base of \<open>foo\<close> is \<open>0x9000\<close>, and
  \<open>getFunctionAtAddress 0x9050\<close> with the relocated flag returns \<open>foo\<close>.
\<close>

theorem scenario_foo_relocated:
  "newSymbolTable [scenario_section fo al] (Some 0) (scenario_line @ [CHR 0x0A])
     = Inr \<lparr>symbols = [scenario_foo 0], sections = [scenario_section fo al]\<rparr>
   \<and> sym_address (scenario_foo 0) = 0x50 \<and> sym_base (scenario_foo 0) = 0
   \<and> sym_name (scenario_foo 0) = ''foo''
   \<and> relocateWithOffset 0x8000
        \<lparr>symbols = [scenario_foo 0], sections = [scenario_section fo al]\<rparr>
     = \<lparr>symbols = [scenario_foo 0x9000],
        sections = [(scenario_section fo al)\<lparr>sec_address := 0x9000\<rparr>]\<rparr>
   \<and> sym_base (scenario_foo 0x9000) = 0x9000
   \<and> getFunctionAtAddress
       (relocateWithOffset 0x8000
          \<lparr>symbols = [scenario_foo 0], sections = [scenario_section fo al]\<rparr>)
       0x9050 True = Some (scenario_foo 0x9000)"
proof -
  have moved: "relocateWithOffset 0x8000
        \<lparr>symbols = [scenario_foo 0], sections = [scenario_section fo al]\<rparr>
     = \<lparr>symbols = [scenario_foo 0x9000],
        sections = [(scenario_section fo al)\<lparr>sec_address := 0x9000\<rparr>]\<rparr>"
    by (simp add: relocateWithOffset_def isAllocated_def updateBase_def findSection_def
        scenario_section_def scenario_foo_def)
  have found: "getFunctionAtAddress \<lparr>symbols = [scenario_foo 0x9000],
        sections = [(scenario_section fo al)\<lparr>sec_address := 0x9000\<rparr>]\<rparr> 0x9050 True
      = Some (scenario_foo 0x9000)"
    by (simp add: getFunctionAtAddress_def functionAt_def symAddress_def scenario_foo_def)
  show ?thesis
    unfolding moved using scenario_table found by (simp add: scenario_foo_def)
qed

subsection \<open>Relocation\<close>

lemma length_setSectionAddress [simp]: "length (setSectionAddress n a secs) = length secs"
  by (induction secs) auto

lemma names_setSectionAddress [simp]:
  "map sec_name (setSectionAddress n a secs) = map sec_name secs"
  by (induction secs) auto

lemma setSectionAddress_twice:
  "setSectionAddress n a (setSectionAddress n b secs) = setSectionAddress n a secs"
  by (induction secs) auto

lemma setSectionAddress_commute:
  "n \<noteq> n' \<Longrightarrow>
   setSectionAddress n a (setSectionAddress n' b secs)
     = setSectionAddress n' b (setSectionAddress n a secs)"
  by (induction secs) auto

lemma relocateSections_snoc:
  "relocateSections (rs @ [r]) secs
     = setSectionAddress (sec_name r) (sec_address r) (relocateSections rs secs)"
  by (simp add: relocateSections_def)

lemma relocateSections_Nil [simp]: "relocateSections [] secs = secs"
  by (simp add: relocateSections_def)

text \<open>A write to the section of a name makes an earlier write to it invisible, whatever
  is written in between.\<close>

lemma relocateSections_absorb:
  "setSectionAddress n a (relocateSections rs (setSectionAddress n a secs))
     = setSectionAddress n a (relocateSections rs secs)"
proof (induction rs rule: rev_induct)
  case Nil
  show ?case by (simp add: setSectionAddress_twice)
next
  case (snoc r rs)
  show ?case
  proof (cases "sec_name r = n")
    case True
    then show ?thesis
      using snoc by (simp add: relocateSections_snoc setSectionAddress_twice)
  next
    case False
    then have "n \<noteq> sec_name r" by blast
    then show ?thesis
      using snoc
      by (simp add: relocateSections_snoc setSectionAddress_commute [of n "sec_name r"])
  qed
qed

lemma relocateSections_idem:
  "relocateSections rs (relocateSections rs secs) = relocateSections rs secs"
proof (induction rs arbitrary: secs rule: rev_induct)
  case Nil
  show ?case by simp
next
  case (snoc r rs)
  show ?case
    by (simp add: relocateSections_snoc relocateSections_absorb snoc)
qed

lemma updateBase_section [simp]: "sym_section (updateBase secs s) = sym_section s"
  by (simp add: updateBase_def split: option.splits)

lemma updateBase_idem: "updateBase secs (updateBase secs s) = updateBase secs s"
  by (simp add: updateBase_def split: option.splits)

lemma updateBase_map_idem:
  "map (updateBase secs) (map (updateBase secs) syms) = map (updateBase secs) syms"
  by (simp add: updateBase_idem)

lemma relocate_idem: "relocate rs (relocate rs t) = relocate rs t"
  by (simp add: relocate_def Let_def relocateSections_idem updateBase_idem)

lemma relocateWithOffset_idem:
  "relocateWithOffset off (relocateWithOffset off t) = relocateWithOffset off t"
proof -
  let ?f = "\<lambda>s. if isAllocated (sec_flags s) (sec_size s)
                 then s\<lparr>sec_address := sec_vma s + off\<rparr> else s"
  have f: "map ?f (map ?f secs) = map ?f secs" for secs
    by (induction secs) auto
  have "relocateWithOffset off t
      = \<lparr>symbols = map (updateBase (map ?f (sections t))) (symbols t),
         sections = map ?f (sections t)\<rparr>" for t
    by (simp add: relocateWithOffset_def Let_def)
  then show ?thesis
    by (simp only: SymbolTable.simps f updateBase_map_idem)
qed

text \<open>
  Claim C3. Both relocation entry points are idempotent: from any table, a second call
  of \<open>relocate\<close> with the same list of sections, or of \<open>relocateWithOffset\<close> with the same
  offset, leaves the table (every section, every symbol) as the first call left it.
\<close>

theorem relocation_idempotent:
  "relocate relocatedSections (relocate relocatedSections t) = relocate relocatedSections t
   \<and> relocateWithOffset loadOffset (relocateWithOffset loadOffset t)
       = relocateWithOffset loadOffset t"
proof (rule conjI)
  show "relocate relocatedSections (relocate relocatedSections t) = relocate relocatedSections t"
    by (rule relocate_idem)
  show "relocateWithOffset loadOffset (relocateWithOffset loadOffset t)
          = relocateWithOffset loadOffset t"
    by (rule relocateWithOffset_idem)
qed

subsection \<open>The decoder\<close>

lemma decodeSymbol_Inl:
  "decodeSymbol secs cf m = Inl e \<longleftrightarrow>
     trim (g9 m) \<noteq> ''*ABS*'' \<and> findSection secs (trim (g9 m)) = None
     \<and> e = SectionNotFound (trim (g9 m)) (fst (symbolName m))"
  by (auto simp: decodeSymbol_def Let_def split: prod.splits)

lemma decodeSymbol_Inr:
  "decodeSymbol secs cf m = Inr (cf', s) \<longleftrightarrow>
     (trim (g9 m) = ''*ABS*'' \<or> findSection secs (trim (g9 m)) \<noteq> None)
     \<and> cf' = nextFile cf m
     \<and> s = \<lparr>sym_address = int (parseInt16 (g1 m))
                - (case findSection secs (trim (g9 m)) of Some sec \<Rightarrow> sec_lma sec | None \<Rightarrow> 0),
            sym_base = 0, sym_type = TYPE_MAP (g8 m),
            sym_scope = fixedScope (nextFile cf m) m,
            sym_section = trim (g9 m), sym_size = parseInt16 (g10 m),
            sym_name = fst (symbolName m), sym_lines = None,
            sym_file = (if fixedScope (nextFile cf m) m = Local then nextFile cf m else None),
            sym_hidden = snd (symbolName m)\<rparr>"
  by (auto simp: decodeSymbol_def Let_def split: prod.splits)

lemma fileAfter_Nil [simp]: "fileAfter cf [] = cf"
  by (simp add: fileAfter_def)

lemma fileAfter_Cons [simp]:
  "fileAfter cf (l # ls) =
     fileAfter (case SYMBOL_REGEX l of None \<Rightarrow> cf | Some m \<Rightarrow> nextFile cf m) ls"
  by (simp add: fileAfter_def)

lemma getSymbols_loop_append:
  "getSymbols_loop secs cf (pre @ rest) acc =
     (case getSymbols_loop secs cf pre acc of
        Inl e \<Rightarrow> Inl e
      | Inr mid \<Rightarrow> getSymbols_loop secs (fileAfter cf pre) rest mid)"
proof (induction pre arbitrary: cf acc)
  case Nil
  show ?case by simp
next
  case (Cons l pre)
  show ?case
  proof (cases "SYMBOL_REGEX l")
    case None
    then show ?thesis using Cons by (simp split: sum.splits)
  next
    case (Some m)
    show ?thesis
    proof (cases "decodeSymbol secs cf m")
      case (Inl e)
      then show ?thesis using Some by simp
    next
      case (Inr p)
      obtain cf' s where p: "p = (cf', s)" by (cases p)
      with Inr have "cf' = nextFile cf m" by (simp add: decodeSymbol_Inr)
      then show ?thesis using Some Inr p Cons by (simp split: sum.splits)
    qed
  qed
qed

lemma getSymbols_loop_length:
  "getSymbols_loop secs cf ls acc = Inr out \<Longrightarrow> length out = length acc + pushedBy ls"
proof (induction ls arbitrary: cf acc)
  case Nil
  then show ?case by (simp add: pushedBy_def)
next
  case (Cons l ls)
  show ?case
  proof (cases "SYMBOL_REGEX l")
    case None
    then show ?thesis using Cons by (simp add: pushedBy_def)
  next
    case (Some m)
    with Cons.prems obtain cf' s where
      d: "decodeSymbol secs cf m = Inr (cf', s)"
      and r: "getSymbols_loop secs cf' ls (acc @ [s]) = Inr out"
      by (auto split: sum.splits)
    from Cons.IH [OF r] Some show ?thesis by (simp add: pushedBy_def)
  qed
qed

lemma getSymbols_loop_prefix:
  "getSymbols_loop secs cf ls acc = Inr out \<Longrightarrow> take (length acc) out = acc"
proof (induction ls arbitrary: cf acc)
  case Nil
  then show ?case by simp
next
  case (Cons l ls)
  show ?case
  proof (cases "SYMBOL_REGEX l")
    case None
    then show ?thesis using Cons by simp
  next
    case (Some m)
    with Cons.prems obtain cf' s where
      d: "decodeSymbol secs cf m = Inr (cf', s)"
      and r: "getSymbols_loop secs cf' ls (acc @ [s]) = Inr out"
      by (auto split: sum.splits)
    from Cons.IH [OF r] have "take (length acc + 1) out = acc @ [s]" by simp
    then have "take (length acc) (take (length acc + 1) out) = take (length acc) (acc @ [s])"
      by simp
    then show ?thesis by (simp add: min_def)
  qed
qed

text \<open>The symbol pushed for the first line of the rest of the scan.\<close>

lemma getSymbols_loop_head:
  assumes "getSymbols_loop secs cf (l # ls) acc = Inr out" and "SYMBOL_REGEX l = Some m"
  shows "length acc < length out \<and> decodeSymbol secs cf m = Inr (nextFile cf m, out ! length acc)"
proof -
  from assms obtain cf' s where
    d: "decodeSymbol secs cf m = Inr (cf', s)"
    and r: "getSymbols_loop secs cf' ls (acc @ [s]) = Inr out"
    by (auto split: sum.splits)
  from getSymbols_loop_prefix [OF r] have t: "take (length acc + 1) out = acc @ [s]" by simp
  from getSymbols_loop_length [OF r] have len: "length acc < length out" by simp
  have "out ! length acc = take (length acc + 1) out ! length acc" by simp
  also have "\<dots> = s" by (simp only: t nth_append_length)
  finally have "out ! length acc = s" .
  moreover from d have "cf' = nextFile cf m" by (simp add: decodeSymbol_Inr)
  ultimately show ?thesis using d len by simp
qed

lemma getSymbols_loop_unknown:
  "find (unknownSection secs) ls = Some l \<Longrightarrow> SYMBOL_REGEX l = Some m \<Longrightarrow>
   getSymbols_loop secs cf ls acc = Inl (SectionNotFound (trim (g9 m)) (fst (symbolName m)))"
proof (induction ls arbitrary: cf acc)
  case Nil
  then show ?case by simp
next
  case (Cons x ls)
  show ?case
  proof (cases "unknownSection secs x")
    case True
    with Cons.prems have "x = l" by simp
    from True Cons.prems(2) \<open>x = l\<close>
    have "decodeSymbol secs cf m = Inl (SectionNotFound (trim (g9 m)) (fst (symbolName m)))"
      by (simp add: unknownSection_def decodeSymbol_Inl)
    with Cons.prems(2) \<open>x = l\<close> show ?thesis by simp
  next
    case False
    with Cons.prems have f: "find (unknownSection secs) ls = Some l" by simp
    show ?thesis
    proof (cases "SYMBOL_REGEX x")
      case None
      then show ?thesis using Cons.IH [OF f Cons.prems(2)] by simp
    next
      case (Some mx)
      with False have "trim (g9 mx) = ''*ABS*'' \<or> findSection secs (trim (g9 mx)) \<noteq> None"
        by (simp add: unknownSection_def)
      then obtain s where "decodeSymbol secs cf mx = Inr (nextFile cf mx, s)"
        by (simp add: decodeSymbol_Inr)
      then show ?thesis using Some Cons.IH [OF f Cons.prems(2)] by simp
    qed
  qed
qed

text \<open>What holds of every symbol the body of the loop pushes holds of every symbol of the
  result.\<close>

lemma getSymbols_loop_all:
  assumes "getSymbols_loop secs cf ls acc = Inr out"
    and "\<forall>s\<in>set acc. P s"
    and "\<And>cf m cf' s. decodeSymbol secs cf m = Inr (cf', s) \<Longrightarrow> P s"
  shows "\<forall>s\<in>set out. P s"
  using assms(1,2)
proof (induction ls arbitrary: cf acc)
  case Nil
  then show ?case by simp
next
  case (Cons l ls)
  show ?case
  proof (cases "SYMBOL_REGEX l")
    case None
    then show ?thesis using Cons by simp
  next
    case (Some m)
    with Cons.prems(1) obtain cf' s where
      d: "decodeSymbol secs cf m = Inr (cf', s)"
      and r: "getSymbols_loop secs cf' ls (acc @ [s]) = Inr out"
      by (auto split: sum.splits)
    from assms(3) [OF d] Cons.prems(2) have "\<forall>s\<in>set (acc @ [s]). P s" by simp
    from Cons.IH [OF r this] show ?thesis .
  qed
qed

lemma getSymbols_loop_resolved:
  assumes "getSymbols_loop secs cf ls [] = Inr out"
  shows "\<forall>s\<in>set out. sym_section s = ''*ABS*'' \<or> findSection secs (sym_section s) \<noteq> None"
  by (rule getSymbols_loop_all [OF assms]) (auto simp: decodeSymbol_Inr)

text \<open>A local symbol of the result has a file, which is neither empty nor the
  synthetic compile unit; any other symbol has none.\<close>

lemma getSymbols_loop_files:
  assumes "getSymbols_loop secs cf ls [] = Inr out"
  shows "\<forall>s\<in>set out.
           (sym_scope s = Local \<longrightarrow> (\<exists>f. sym_file s = Some f \<and> f \<noteq> [] \<and> f \<noteq> ''<artificial>''))
           \<and> (sym_scope s \<noteq> Local \<longrightarrow> sym_file s = None)"
proof (rule getSymbols_loop_all [OF assms])
  show "\<forall>s\<in>set []. (sym_scope s = Local \<longrightarrow> (\<exists>f. sym_file s = Some f \<and> f \<noteq> [] \<and> f \<noteq> ''<artificial>''))
           \<and> (sym_scope s \<noteq> Local \<longrightarrow> sym_file s = None)"
    by simp
next
  fix cf m cf' s
  assume d: "decodeSymbol secs cf m = Inr (cf', s)"
  let ?cf = "nextFile cf m"
  from d have s: "sym_scope s = fixedScope ?cf m"
    "sym_file s = (if fixedScope ?cf m = Local then ?cf else None)"
    by (simp_all add: decodeSymbol_Inr)
  have "fixedScope ?cf m = Local \<Longrightarrow> \<exists>f. ?cf = Some f \<and> f \<noteq> [] \<and> f \<noteq> ''<artificial>''"
    by (cases ?cf) (auto simp: fixedScope_def noFile_def Let_def split: if_splits)
  with s show "(sym_scope s = Local \<longrightarrow> (\<exists>f. sym_file s = Some f \<and> f \<noteq> [] \<and> f \<noteq> ''<artificial>''))
           \<and> (sym_scope s \<noteq> Local \<longrightarrow> sym_file s = None)"
    by simp
qed

lemma findSection_Some_iff:
  "findSection secs n \<noteq> None \<longleftrightarrow> (\<exists>sec\<in>set secs. sec_name sec = n)"
  by (auto simp: findSection_def find_None_iff)

lemma find_exists: "x \<in> set xs \<Longrightarrow> P x \<Longrightarrow> \<exists>y. find P xs = Some y \<and> y \<in> set xs \<and> P y"
  by (induction xs) auto

lemma find_first:
  "\<forall>p\<in>set pre. \<not> P p \<Longrightarrow> P l \<Longrightarrow> find P (pre @ l # post) = Some l"
  by (induction pre) auto

lemma newSymbolTable_resolved:
  assumes "newSymbolTable secs status stdout = Inr t"
  shows "sections t = secs"
    and "\<forall>s\<in>set (symbols t). sym_section s = ''*ABS*'' \<or> findSection secs (sym_section s) \<noteq> None"
proof -
  from assms obtain syms where
    g: "getSymbols secs status stdout = Inr syms" and t: "t = \<lparr>symbols = syms, sections = secs\<rparr>"
    by (auto simp: newSymbolTable_def split: sum.splits)
  from t show "sections t = secs" by simp
  from g have "getSymbols_loop secs None (outputLines stdout) [] = Inr syms"
    by (simp add: getSymbols_def split: if_splits)
  from getSymbols_loop_resolved [OF this] t
  show "\<forall>s\<in>set (symbols t). sym_section s = ''*ABS*'' \<or> findSection secs (sym_section s) \<noteq> None"
    by simp
qed

text \<open>
  Claim C5. When the tool has run and the table has sections, and the first line of the
  output that names an unknown section (one that is neither \<open>*ABS*\<close> nor the name of a
  section of the table) is \<open>line\<close>, the construction fails with the error
  \<open>SectionNotFound\<close> that carries the section and the name of the symbol of that line.
  Whenever any line of the output names an unknown section, the construction fails with
  that error for such a line. So in every table that was constructed, the section of
  every symbol is \<open>*ABS*\<close> or the name of a section of the table.
\<close>

theorem unknown_section_fails:
  "(secs \<noteq> [] \<and> status = Some 0
      \<and> outputLines stdout = pre @ line # post
      \<and> (\<forall>p\<in>set pre. \<not> unknownSection secs p)
      \<and> SYMBOL_REGEX line = Some m
      \<and> trim (g9 m) \<noteq> ''*ABS*'' \<and> (\<forall>sec\<in>set secs. sec_name sec \<noteq> trim (g9 m))
    \<longrightarrow> newSymbolTable secs status stdout
          = Inl (SectionNotFound (trim (g9 m)) (fst (symbolName m))))
   \<and> (secs \<noteq> [] \<and> status = Some 0
      \<and> other \<in> set (outputLines stdout) \<and> unknownSection secs other
    \<longrightarrow> (\<exists>l n. l \<in> set (outputLines stdout) \<and> SYMBOL_REGEX l = Some n
           \<and> trim (g9 n) \<noteq> ''*ABS*'' \<and> (\<forall>sec\<in>set secs. sec_name sec \<noteq> trim (g9 n))
           \<and> newSymbolTable secs status stdout
               = Inl (SectionNotFound (trim (g9 n)) (fst (symbolName n)))))
   \<and> (newSymbolTable secs status stdout = Inr t
    \<longrightarrow> (\<forall>s\<in>set (symbols t).
           sym_section s = ''*ABS*'' \<or> (\<exists>sec\<in>set (sections t). sec_name sec = sym_section s)))"
proof (intro conjI impI)
  assume a: "secs \<noteq> [] \<and> status = Some 0
      \<and> outputLines stdout = pre @ line # post
      \<and> (\<forall>p\<in>set pre. \<not> unknownSection secs p)
      \<and> SYMBOL_REGEX line = Some m
      \<and> trim (g9 m) \<noteq> ''*ABS*'' \<and> (\<forall>sec\<in>set secs. sec_name sec \<noteq> trim (g9 m))"
  then have "findSection secs (trim (g9 m)) = None"
    using findSection_Some_iff [of secs "trim (g9 m)"] by blast
  with a have "unknownSection secs line" by (simp add: unknownSection_def)
  with a have "find (unknownSection secs) (outputLines stdout) = Some line"
    by (simp add: find_first)
  from getSymbols_loop_unknown [OF this] a
  show "newSymbolTable secs status stdout
          = Inl (SectionNotFound (trim (g9 m)) (fst (symbolName m)))"
    by (simp add: newSymbolTable_def getSymbols_def)
next
  assume b: "secs \<noteq> [] \<and> status = Some 0
      \<and> other \<in> set (outputLines stdout) \<and> unknownSection secs other"
  with find_exists [of other "outputLines stdout" "unknownSection secs"] obtain l where
    f: "find (unknownSection secs) (outputLines stdout) = Some l"
    and l: "l \<in> set (outputLines stdout)" "unknownSection secs l"
    by blast
  from l(2) obtain n where
    n: "SYMBOL_REGEX l = Some n" "trim (g9 n) \<noteq> ''*ABS*''"
      "findSection secs (trim (g9 n)) = None"
    by (auto simp: unknownSection_def split: option.splits)
  from n(3) have none: "\<forall>sec\<in>set secs. sec_name sec \<noteq> trim (g9 n)"
    using findSection_Some_iff [of secs "trim (g9 n)"] by blast
  from getSymbols_loop_unknown [OF f n(1)] b
  have "newSymbolTable secs status stdout
               = Inl (SectionNotFound (trim (g9 n)) (fst (symbolName n)))"
    by (simp add: newSymbolTable_def getSymbols_def)
  with l(1) n(1,2) none
  show "\<exists>l n. l \<in> set (outputLines stdout) \<and> SYMBOL_REGEX l = Some n
           \<and> trim (g9 n) \<noteq> ''*ABS*'' \<and> (\<forall>sec\<in>set secs. sec_name sec \<noteq> trim (g9 n))
           \<and> newSymbolTable secs status stdout
               = Inl (SectionNotFound (trim (g9 n)) (fst (symbolName n)))"
    by blast
next
  assume "newSymbolTable secs status stdout = Inr t"
  from newSymbolTable_resolved [OF this]
  show "\<forall>s\<in>set (symbols t).
           sym_section s = ''*ABS*'' \<or> (\<exists>sec\<in>set (sections t). sec_name sec = sym_section s)"
    using findSection_Some_iff by blast
qed

lemma orphan_match: "SYMBOL_REGEX orphan_line = Some orphan_groups"
  unfolding orphan_groups_def by code_simp

lemma orphan_lines:
  "outputLines (scenario_line @ [CHR 0x0A] @ orphan_line @ [CHR 0x0A])
     = [scenario_line] @ orphan_line # [[]]"
  by code_simp

lemma trim_examples:
  "trim ''.data'' = ''.data''" "trim ''counter'' = ''counter''" "trim ''.text'' = ''.text''"
  "trim ''foo'' = ''foo''"
  by code_simp+

theorem unknown_section_fails_witness:
  "outputLines (scenario_line @ [CHR 0x0A] @ orphan_line @ [CHR 0x0A])
     = [scenario_line] @ orphan_line # [[]]
   \<and> \<not> unknownSection [scenario_section 0 4] scenario_line
   \<and> SYMBOL_REGEX orphan_line = Some orphan_groups
   \<and> trim (g9 orphan_groups) = ''.data''
   \<and> sec_name (scenario_section 0 4) = ''.text''
   \<and> newSymbolTable [scenario_section 0 4] (Some 0)
       (scenario_line @ [CHR 0x0A] @ orphan_line @ [CHR 0x0A])
     = Inl (SectionNotFound ''.data'' ''counter'')
   \<and> newSymbolTable [scenario_section 0 4] (Some 0) (scenario_line @ [CHR 0x0A])
       = Inr \<lparr>symbols = [scenario_foo 0], sections = [scenario_section 0 4]\<rparr>
   \<and> sec_name (scenario_section 0 4) = sym_section (scenario_foo 0)"
proof -
  have pre: "\<not> unknownSection [scenario_section 0 4] scenario_line"
    by (simp add: unknownSection_def scenario_match trim_examples findSection_def
        scenario_section_def)
  have sec: "trim (g9 orphan_groups) = ''.data''"
    by (simp add: orphan_groups_def trim_examples)
  have name: "fst (symbolName orphan_groups) = ''counter''"
    by (simp add: orphan_groups_def symbolName_def trim_examples startsWith_def)
  have 1: "newSymbolTable [scenario_section 0 4] (Some 0)
       (scenario_line @ [CHR 0x0A] @ orphan_line @ [CHR 0x0A])
     = Inl (SectionNotFound ''.data'' ''counter'')"
    using unknown_section_fails [where secs = "[scenario_section 0 4]" and status = "Some 0"
        and stdout = "scenario_line @ [CHR 0x0A] @ orphan_line @ [CHR 0x0A]"
        and pre = "[scenario_line]" and line = orphan_line and post = "[[]]"
        and m = orphan_groups] pre orphan_match orphan_lines name sec
    by (simp add: scenario_section_def)
  have 2: "newSymbolTable [scenario_section 0 4] (Some 0) (scenario_line @ [CHR 0x0A])
       = Inr \<lparr>symbols = [scenario_foo 0], sections = [scenario_section 0 4]\<rparr>"
    by (rule scenario_table)
  from 2 unknown_section_fails [where secs = "[scenario_section 0 4]" and status = "Some 0"
        and stdout = "scenario_line @ [CHR 0x0A]"
        and t = "\<lparr>symbols = [scenario_foo 0], sections = [scenario_section 0 4]\<rparr>"]
  have 3: "sec_name (scenario_section 0 4) = sym_section (scenario_foo 0)"
    by (simp add: scenario_foo_def)
  from 1 2 3 pre sec orphan_match orphan_lines show ?thesis
    by (simp add: scenario_section_def)
qed

lemma nextFile_ordinary:
  "\<not> (g7 m = CHR ''d'' \<and> g8 m = CHR ''f'') \<Longrightarrow> nextFile cf m = cf"
  by (auto simp: nextFile_def)

text \<open>
  Claim C6. The fix for LTO. Let \<open>line\<close> be a line of the output that matches, with the
  lines \<open>pre\<close> before it, whose scope flag reads as \<open>Local\<close>. Let \<^verbatim>\<open>currentFile\<close>, as the
  test of line 95 reads it, be unset or \<open><artificial>\<close>: that is the value the loop has
  after the lines \<open>pre\<close>, updated by \<open>line\<close> itself when it is a file marker (and the value
  after \<open>pre\<close> when it is not, lemma \<open>nextFile_ordinary\<close>). Then the symbol pushed for
  \<open>line\<close>, which is the one at index \<open>pushedBy pre\<close> of the result, has the scope \<open>Global\<close>
  and no file.
\<close>

theorem lto_scope_fix:
  assumes "getSymbols secs status stdout = Inr out"
    and "outputLines stdout = pre @ line # post"
    and "SYMBOL_REGEX line = Some m"
    and "SCOPE_MAP (g2 m) = Local"
    and "nextFile (fileAfter None pre) m = None
         \<or> nextFile (fileAfter None pre) m = Some ''<artificial>''"
  shows "pushedBy pre < length out
         \<and> sym_name (out ! pushedBy pre) = fst (symbolName m)
         \<and> sym_scope (out ! pushedBy pre) = Global
         \<and> sym_file (out ! pushedBy pre) = None"
proof -
  from assms(1,2) have "getSymbols_loop secs None (pre @ line # post) [] = Inr out"
    by (simp add: getSymbols_def split: if_splits)
  then obtain mid where
    mid: "getSymbols_loop secs None pre [] = Inr mid"
    and rest: "getSymbols_loop secs (fileAfter None pre) (line # post) mid = Inr out"
    by (auto simp: getSymbols_loop_append split: sum.splits)
  from getSymbols_loop_length [OF mid] have len: "length mid = pushedBy pre" by simp
  from getSymbols_loop_head [OF rest assms(3)] len
  have k: "pushedBy pre < length out"
    and d: "decodeSymbol secs (fileAfter None pre) m
              = Inr (nextFile (fileAfter None pre) m, out ! pushedBy pre)"
    by simp_all
  from assms(4,5) have "fixedScope (nextFile (fileAfter None pre) m) m = Global"
    by (auto simp: fixedScope_def noFile_def)
  with d k show ?thesis by (simp add: decodeSymbol_Inr)
qed

lemma lto_lines: "outputLines lto_stdout = [lto_marker_line] @ lto_function_line # [[]]"
  by code_simp

lemma lto_marker_match:
  "SYMBOL_REGEX lto_marker_line =
     Some \<lparr>g1 = ''00000000'', g2 = CHR ''l'', g3 = CHR '' '', g4 = CHR '' '', g5 = CHR '' '',
           g6 = CHR '' '', g7 = CHR ''d'', g8 = CHR ''f'', g9 = ''*ABS*'',
           g10 = ''00000000'', g11 = ''<artificial>''\<rparr>"
  by code_simp

lemma lto_function_match: "SYMBOL_REGEX lto_function_line = Some lto_function_groups"
  unfolding lto_function_groups_def by code_simp

lemma lto_symbols: "getSymbols [scenario_section 0 4] (Some 0) lto_stdout = Inr lto_decoded"
  unfolding lto_decoded_def by code_simp

lemma lto_unmarked_lines: "outputLines lto_unmarked_stdout = [] @ lto_function_line # [[]]"
  by code_simp

lemma lto_unmarked_symbols:
  "getSymbols [scenario_section 0 4] (Some 0) lto_unmarked_stdout = Inr lto_unmarked_decoded"
  unfolding lto_unmarked_decoded_def by code_simp

theorem lto_scope_fix_witness:
  "getSymbols [scenario_section 0 4] (Some 0) lto_stdout = Inr lto_decoded
   \<and> outputLines lto_stdout = [lto_marker_line] @ lto_function_line # [[]]
   \<and> SYMBOL_REGEX lto_function_line = Some lto_function_groups
   \<and> SCOPE_MAP (g2 lto_function_groups) = Local
   \<and> nextFile (fileAfter None [lto_marker_line]) lto_function_groups = Some ''<artificial>''
   \<and> pushedBy [lto_marker_line] < length lto_decoded
   \<and> sym_name (lto_decoded ! pushedBy [lto_marker_line]) = fst (symbolName lto_function_groups)
   \<and> sym_scope (lto_decoded ! pushedBy [lto_marker_line]) = Global
   \<and> sym_file (lto_decoded ! pushedBy [lto_marker_line]) = None
   \<and> getSymbols [scenario_section 0 4] (Some 0) lto_unmarked_stdout = Inr lto_unmarked_decoded
   \<and> outputLines lto_unmarked_stdout = [] @ lto_function_line # [[]]
   \<and> nextFile (fileAfter None []) lto_function_groups = None
   \<and> sym_scope (lto_unmarked_decoded ! pushedBy []) = Global
   \<and> sym_file (lto_unmarked_decoded ! pushedBy []) = None"
proof -
  have scope: "SCOPE_MAP (g2 lto_function_groups) = Local"
    by (simp add: SCOPE_MAP_def lto_function_groups_def)
  have marker: "nextFile (fileAfter None [lto_marker_line]) lto_function_groups
                  = Some ''<artificial>''"
    by (simp add: lto_marker_match nextFile_def lto_function_groups_def) code_simp
  have unset: "nextFile (fileAfter None []) lto_function_groups = None"
    by (simp add: nextFile_def lto_function_groups_def)
  from lto_scope_fix [OF lto_symbols lto_lines lto_function_match scope] marker
  have 1: "pushedBy [lto_marker_line] < length lto_decoded
   \<and> sym_name (lto_decoded ! pushedBy [lto_marker_line]) = fst (symbolName lto_function_groups)
   \<and> sym_scope (lto_decoded ! pushedBy [lto_marker_line]) = Global
   \<and> sym_file (lto_decoded ! pushedBy [lto_marker_line]) = None"
    by simp
  from lto_scope_fix [OF lto_unmarked_symbols lto_unmarked_lines lto_function_match scope] unset
  have 2: "sym_scope (lto_unmarked_decoded ! pushedBy []) = Global
   \<and> sym_file (lto_unmarked_decoded ! pushedBy []) = None"
    by simp
  from 1 2 marker unset lto_symbols lto_lines lto_function_match scope
    lto_unmarked_symbols lto_unmarked_lines
  show ?thesis by (intro conjI) simp_all
qed

subsection \<open>Relocation keeps the base of a symbol at the address of its section\<close>

lemma names_relocateSections [simp]:
  "map sec_name (relocateSections rs secs) = map sec_name secs"
  by (induction rs arbitrary: secs rule: rev_induct) (simp_all add: relocateSections_snoc)

lemma findSection_None_iff: "findSection secs n = None \<longleftrightarrow> n \<notin> set (map sec_name secs)"
  by (auto simp: findSection_def find_None_iff)

lemma findSection_names:
  "map sec_name secs' = map sec_name secs \<Longrightarrow>
   findSection secs' n = None \<longleftrightarrow> findSection secs n = None"
  by (simp only: findSection_None_iff)

lemma names_offset [simp]:
  "map sec_name (map (\<lambda>s. if isAllocated (sec_flags s) (sec_size s)
                           then s\<lparr>sec_address := sec_vma s + off\<rparr> else s) secs)
     = map sec_name secs"
  by (induction secs) auto

lemma applyDirective_names [simp]:
  "map sec_name (sections (applyDirective d t)) = map sec_name (sections t)"
  by (cases d) (simp_all add: relocate_def relocateWithOffset_def Let_def)

lemma applyDirective_symbol_sections [simp]:
  "map sym_section (symbols (applyDirective d t)) = map sym_section (symbols t)"
  by (cases d) (simp_all add: relocate_def relocateWithOffset_def Let_def)

lemma applyDirective_symbols:
  "symbols (applyDirective d t) = map (updateBase (sections (applyDirective d t))) (symbols t)"
  by (cases d) (simp_all add: relocate_def relocateWithOffset_def Let_def)

lemma applyDirectives_snoc [simp]:
  "applyDirectives (ds @ [d]) t = applyDirective d (applyDirectives ds t)"
  by (simp add: applyDirectives_def)

lemma applyDirectives_Nil [simp]: "applyDirectives [] t = t"
  by (simp add: applyDirectives_def)

lemma applyDirectives_names [simp]:
  "map sec_name (sections (applyDirectives ds t)) = map sec_name (sections t)"
  by (induction ds rule: rev_induct) simp_all

lemma applyDirectives_symbol_sections [simp]:
  "map sym_section (symbols (applyDirectives ds t)) = map sym_section (symbols t)"
  by (induction ds rule: rev_induct) simp_all

text \<open>
  Claim C2. In a table that the constructor built, after any sequence of relocation
  calls and right after one more call \<open>d\<close> (of \<open>relocate\<close> or of \<open>relocateWithOffset\<close>), every
  symbol whose section is not \<open>*ABS*\<close> has an owning section, the one \<^verbatim>\<open>find\<close> returns for
  the symbol's section name, its base is the address that section has now, and its
  relocated address is its address plus its base.
\<close>

theorem base_follows_section:
  assumes "newSymbolTable secs status stdout = Inr t0"
    and "t = applyDirective d (applyDirectives ds t0)"
    and "s \<in> set (symbols t)"
    and "sym_section s \<noteq> ''*ABS*''"
  shows "\<exists>owner. findSection (sections t) (sym_section s) = Some owner
           \<and> sym_base s = sec_address owner
           \<and> symAddress True s = sym_address s + sym_base s"
proof -
  let ?t1 = "applyDirectives ds t0"
  from assms(2,3) obtain s1 where
    s1: "s1 \<in> set (symbols ?t1)" and s: "s = updateBase (sections t) s1"
    by (auto simp: applyDirective_symbols)
  then have sec: "sym_section s1 = sym_section s" by simp
  have "set (map sym_section (symbols ?t1)) = set (map sym_section (symbols t0))"
    by (simp only: applyDirectives_symbol_sections)
  then have "sym_section ` set (symbols ?t1) = sym_section ` set (symbols t0)"
    by (simp only: set_map)
  with s1 sec obtain s0 where "s0 \<in> set (symbols t0)" and "sym_section s0 = sym_section s"
    by (metis imageE imageI)
  with newSymbolTable_resolved [OF assms(1)] assms(4)
  have "findSection (sections t0) (sym_section s) \<noteq> None" by auto
  moreover have "map sec_name (sections t) = map sec_name (sections t0)"
    using assms(2) by simp
  ultimately have "findSection (sections t) (sym_section s) \<noteq> None"
    using findSection_names [of "sections t" "sections t0" "sym_section s"] by simp
  then obtain owner where f: "findSection (sections t) (sym_section s) = Some owner"
    by blast
  with s sec have "sym_base s = sec_address owner" by (simp add: updateBase_def)
  with f show ?thesis by (simp add: symAddress_def)
qed


lemma scenario_twice_relocated:
  "applyDirective (Relocate [(scenario_section 0 4)\<lparr>sec_address := 0x20000\<rparr>])
     (applyDirectives [RelocateWithOffset 0x8000]
        \<lparr>symbols = [scenario_foo 0], sections = [scenario_section 0 4]\<rparr>)
   = \<lparr>symbols = [scenario_foo 0x20000],
      sections = [(scenario_section 0 4)\<lparr>sec_address := 0x20000\<rparr>]\<rparr>"
  by (simp add: applyDirectives_def relocate_def relocateWithOffset_def relocateSections_def
      isAllocated_def updateBase_def findSection_def scenario_section_def scenario_foo_def)

theorem base_follows_section_witness:
  "newSymbolTable [scenario_section 0 4] (Some 0) (scenario_line @ [CHR 0x0A])
     = Inr \<lparr>symbols = [scenario_foo 0], sections = [scenario_section 0 4]\<rparr>
   \<and> applyDirective (Relocate [(scenario_section 0 4)\<lparr>sec_address := 0x20000\<rparr>])
       (applyDirectives [RelocateWithOffset 0x8000]
          \<lparr>symbols = [scenario_foo 0], sections = [scenario_section 0 4]\<rparr>)
     = \<lparr>symbols = [scenario_foo 0x20000],
        sections = [(scenario_section 0 4)\<lparr>sec_address := 0x20000\<rparr>]\<rparr>
   \<and> sym_section (scenario_foo 0x20000) \<noteq> ''*ABS*''
   \<and> (\<exists>owner. findSection [(scenario_section 0 4)\<lparr>sec_address := 0x20000\<rparr>]
                  (sym_section (scenario_foo 0x20000)) = Some owner
         \<and> sym_base (scenario_foo 0x20000) = sec_address owner
         \<and> symAddress True (scenario_foo 0x20000)
             = sym_address (scenario_foo 0x20000) + sym_base (scenario_foo 0x20000))
   \<and> sym_base (scenario_foo 0x20000) = 0x20000"
proof -
  have abs: "sym_section (scenario_foo 0x20000) \<noteq> ''*ABS*''"
    by (simp add: scenario_foo_def)
  from base_follows_section [OF scenario_table scenario_twice_relocated [symmetric], of
      "scenario_foo 0x20000"] abs
  have "\<exists>owner. findSection [(scenario_section 0 4)\<lparr>sec_address := 0x20000\<rparr>]
                  (sym_section (scenario_foo 0x20000)) = Some owner
         \<and> sym_base (scenario_foo 0x20000) = sec_address owner
         \<and> symAddress True (scenario_foo 0x20000)
             = sym_address (scenario_foo 0x20000) + sym_base (scenario_foo 0x20000)"
    by simp
  with abs scenario_table scenario_twice_relocated show ?thesis
    by (simp add: scenario_foo_def)
qed

subsection \<open>What \<open>relocate\<close> leaves as it was\<close>

lemma setSectionAddress_other:
  "i < length secs \<Longrightarrow> sec_name (secs ! i) \<noteq> n \<Longrightarrow> setSectionAddress n a secs ! i = secs ! i"
proof (induction secs arbitrary: i)
  case Nil
  then show ?case by simp
next
  case (Cons s ss)
  then show ?case by (cases i) auto
qed

lemma setSectionAddress_fields:
  "i < length secs \<Longrightarrow>
   (setSectionAddress n a secs ! i)\<lparr>sec_address := x\<rparr> = (secs ! i)\<lparr>sec_address := x\<rparr>"
proof (induction secs arbitrary: i)
  case Nil
  then show ?case by simp
next
  case (Cons s ss)
  then show ?case by (cases i) auto
qed

lemma length_relocateSections [simp]: "length (relocateSections rs secs) = length secs"
  by (induction rs rule: rev_induct) (simp_all add: relocateSections_snoc)

lemma relocateSections_name:
  "i < length secs \<Longrightarrow> sec_name (relocateSections rs secs ! i) = sec_name (secs ! i)"
proof -
  assume i: "i < length secs"
  have "map sec_name (relocateSections rs secs) ! i = map sec_name secs ! i" by simp
  with i show ?thesis by (simp only: nth_map length_relocateSections)
qed

lemma relocateSections_other:
  "i < length secs \<Longrightarrow> sec_name (secs ! i) \<notin> sec_name ` set rs \<Longrightarrow>
   relocateSections rs secs ! i = secs ! i"
proof (induction rs rule: rev_induct)
  case Nil
  then show ?case by simp
next
  case (snoc r rs)
  then have "relocateSections rs secs ! i = secs ! i" by simp
  moreover from snoc.prems have "sec_name (relocateSections rs secs ! i) \<noteq> sec_name r"
    by (simp add: relocateSections_name)
  ultimately show ?case using snoc.prems(1)
    by (simp add: relocateSections_snoc setSectionAddress_other)
qed

lemma relocateSections_fields:
  "i < length secs \<Longrightarrow>
   (relocateSections rs secs ! i)\<lparr>sec_address := x\<rparr> = (secs ! i)\<lparr>sec_address := x\<rparr>"
proof (induction rs rule: rev_induct)
  case Nil
  then show ?case by simp
next
  case (snoc r rs)
  then show ?case by (simp add: relocateSections_snoc setSectionAddress_fields)
qed

text \<open>
  Claim C8, as amended. \<open>relocate\<close> changes no member of a section but the address, and
  leaves every section whose name is not among the names of its argument as it was;
  then every symbol whose section name is found in the table gets the address that
  section has now as its base, and every other symbol stays as it was. The symbols of
  section \<open>*ABS*\<close> are among the latter whenever no section of the table carries the name
  \<open>*ABS*\<close>.
\<close>

theorem relocate_frame:
  "length (sections (relocate rs t)) = length (sections t)
   \<and> (\<forall>i<length (sections t).
        (sections (relocate rs t) ! i)\<lparr>sec_address := 0\<rparr> = (sections t ! i)\<lparr>sec_address := 0\<rparr>
        \<and> (sec_name (sections t ! i) \<notin> sec_name ` set rs
           \<longrightarrow> sections (relocate rs t) ! i = sections t ! i))
   \<and> length (symbols (relocate rs t)) = length (symbols t)
   \<and> (\<forall>j<length (symbols t).
        symbols (relocate rs t) ! j =
          (case findSection (sections (relocate rs t)) (sym_section (symbols t ! j)) of
             Some owner \<Rightarrow> (symbols t ! j)\<lparr>sym_base := sec_address owner\<rparr>
           | None \<Rightarrow> symbols t ! j))
   \<and> ((\<forall>sec\<in>set (sections t). sec_name sec \<noteq> ''*ABS*'')
      \<longrightarrow> (\<forall>j<length (symbols t). sym_section (symbols t ! j) = ''*ABS*''
             \<longrightarrow> symbols (relocate rs t) ! j = symbols t ! j))"
proof (intro conjI allI impI)
  show "length (sections (relocate rs t)) = length (sections t)"
    by (simp add: relocate_def Let_def)
  show "length (symbols (relocate rs t)) = length (symbols t)"
    by (simp add: relocate_def Let_def)
next
  fix i assume "i < length (sections t)"
  then show "(sections (relocate rs t) ! i)\<lparr>sec_address := 0\<rparr> = (sections t ! i)\<lparr>sec_address := 0\<rparr>"
    by (simp add: relocate_def Let_def relocateSections_fields)
next
  fix i assume "i < length (sections t)" "sec_name (sections t ! i) \<notin> sec_name ` set rs"
  then show "sections (relocate rs t) ! i = sections t ! i"
    by (simp add: relocate_def Let_def relocateSections_other)
next
  fix j assume "j < length (symbols t)"
  then show "symbols (relocate rs t) ! j =
          (case findSection (sections (relocate rs t)) (sym_section (symbols t ! j)) of
             Some owner \<Rightarrow> (symbols t ! j)\<lparr>sym_base := sec_address owner\<rparr>
           | None \<Rightarrow> symbols t ! j)"
    by (simp add: relocate_def Let_def updateBase_def)
next
  fix j
  assume noabs: "\<forall>sec\<in>set (sections t). sec_name sec \<noteq> ''*ABS*''"
    and j: "j < length (symbols t)" and a: "sym_section (symbols t ! j) = ''*ABS*''"
  from noabs have "findSection (sections t) ''*ABS*'' = None"
    by (auto simp: findSection_None_iff)
  then have "findSection (relocateSections rs (sections t)) ''*ABS*'' = None"
    by (simp add: findSection_None_iff)
  with j a show "symbols (relocate rs t) ! j = symbols t ! j"
    by (simp add: relocate_def Let_def updateBase_def)
qed

lemma abs_match:
  "SYMBOL_REGEX abs_line =
     Some \<lparr>g1 = ''00000010'', g2 = CHR ''g'', g3 = CHR '' '', g4 = CHR '' '', g5 = CHR '' '',
           g6 = CHR '' '', g7 = CHR '' '', g8 = CHR '' '', g9 = ''*ABS*'',
           g10 = ''00000000'', g11 = ''bar''\<rparr>"
  by code_simp

lemma abs_table:
  "newSymbolTable [abs_section] (Some 0) (abs_line @ [CHR 0x0A])
     = Inr \<lparr>symbols = [abs_symbol], sections = [abs_section]\<rparr>"
  unfolding abs_symbol_def abs_section_def by code_simp

text \<open>
  The claim C8 as it was stated has the symbols of section \<open>*ABS*\<close> keep their base in
  every table. \<open>relocate\<close> has no test for that name: in the table built from a section
  header of the name \<open>*ABS*\<close> and an absolute symbol, the symbol's base goes from \<open>0\<close> to
  the address given for that section.
\<close>

theorem abs_symbol_rebased_counterexample:
  "newSymbolTable [abs_section] (Some 0) (abs_line @ [CHR 0x0A])
     = Inr \<lparr>symbols = [abs_symbol], sections = [abs_section]\<rparr>
   \<and> sym_section abs_symbol = ''*ABS*''
   \<and> sym_base abs_symbol = 0
   \<and> symbols (relocate [abs_section\<lparr>sec_address := 0x4000\<rparr>]
               \<lparr>symbols = [abs_symbol], sections = [abs_section]\<rparr>)
     = [abs_symbol\<lparr>sym_base := 0x4000\<rparr>]
   \<and> sym_base (abs_symbol\<lparr>sym_base := 0x4000\<rparr>) \<noteq> sym_base abs_symbol"
  using abs_table
  by (simp add: relocate_def relocateSections_def updateBase_def findSection_def
      abs_section_def abs_symbol_def)

theorem relocate_frame_witness:
  "sec_name bss_section \<notin> sec_name ` set [(scenario_section 0 4)\<lparr>sec_address := 0x9000\<rparr>]
   \<and> sections (relocate [(scenario_section 0 4)\<lparr>sec_address := 0x9000\<rparr>]
        \<lparr>symbols = [scenario_foo 0, abs_symbol], sections = [scenario_section 0 4, bss_section]\<rparr>) ! 1
       = bss_section
   \<and> sec_name (scenario_section 0 4) \<noteq> ''*ABS*'' \<and> sec_name bss_section \<noteq> ''*ABS*''
   \<and> sym_section abs_symbol = ''*ABS*''
   \<and> symbols (relocate [(scenario_section 0 4)\<lparr>sec_address := 0x9000\<rparr>]
        \<lparr>symbols = [scenario_foo 0, abs_symbol], sections = [scenario_section 0 4, bss_section]\<rparr>) ! 1
       = abs_symbol
   \<and> symbols (relocate [(scenario_section 0 4)\<lparr>sec_address := 0x9000\<rparr>]
        \<lparr>symbols = [scenario_foo 0, abs_symbol], sections = [scenario_section 0 4, bss_section]\<rparr>) ! 0
       = scenario_foo 0x9000"
proof -
  let ?rs = "[(scenario_section 0 4)\<lparr>sec_address := 0x9000\<rparr>]"
  let ?t = "\<lparr>symbols = [scenario_foo 0, abs_symbol],
             sections = [scenario_section 0 4, bss_section]\<rparr>"
  have names: "sec_name bss_section \<notin> sec_name ` set ?rs"
    "sec_name (scenario_section 0 4) \<noteq> ''*ABS*''" "sec_name bss_section \<noteq> ''*ABS*''"
    "sym_section abs_symbol = ''*ABS*''"
    by (simp_all add: bss_section_def scenario_section_def abs_symbol_def)
  from relocate_frame [of ?rs ?t] names show ?thesis
    by (simp add: relocate_def Let_def relocateSections_def updateBase_def findSection_def
        scenario_section_def scenario_foo_def bss_section_def abs_symbol_def)
qed

subsection \<open>Lookups\<close>

lemma filter_head: "filter P xs = x # ys \<Longrightarrow> P x \<and> x \<in> set xs"
proof -
  assume "filter P xs = x # ys"
  then have "x \<in> set (filter P xs)" by simp
  then show ?thesis by simp
qed

text \<open>
  Claim C9. For every address and both values of the flag, a symbol returned by
  \<open>getFunctionAtAddress\<close> is a function of the table whose size is not 0, since the
  address lies at or after its start and strictly before its start plus its size; and in
  a table whose functions all have size 0 the result is \<open>None\<close>.
\<close>

theorem empty_function_never_found:
  "(getFunctionAtAddress t address relocated = Some s
      \<longrightarrow> s \<in> set (symbols t) \<and> sym_type s = Function \<and> sym_size s \<noteq> 0
          \<and> symAddress relocated s \<le> address
          \<and> address < symAddress relocated s + int (sym_size s))
   \<and> ((\<forall>f\<in>set (symbols t). sym_type f = Function \<longrightarrow> sym_size f = 0)
      \<longrightarrow> getFunctionAtAddress t address relocated = None)"
proof (rule conjI; rule impI)
  assume "getFunctionAtAddress t address relocated = Some s"
  then obtain rest where "filter (functionAt address relocated) (symbols t) = s # rest"
    by (auto simp: getFunctionAtAddress_def split: list.splits)
  from filter_head [OF this] have "functionAt address relocated s" and "s \<in> set (symbols t)"
    by simp_all
  then show "s \<in> set (symbols t) \<and> sym_type s = Function \<and> sym_size s \<noteq> 0
          \<and> symAddress relocated s \<le> address
          \<and> address < symAddress relocated s + int (sym_size s)"
    by (auto simp: functionAt_def)
next
  assume all0: "\<forall>f\<in>set (symbols t). sym_type f = Function \<longrightarrow> sym_size f = 0"
  have "filter (functionAt address relocated) (symbols t) = []"
  proof (rule ccontr)
    assume "filter (functionAt address relocated) (symbols t) \<noteq> []"
    then obtain f rest where "filter (functionAt address relocated) (symbols t) = f # rest"
      by (cases "filter (functionAt address relocated) (symbols t)") auto
    from filter_head [OF this] have "functionAt address relocated f" "f \<in> set (symbols t)"
      by simp_all
    with all0 show False by (auto simp: functionAt_def)
  qed
  then show "getFunctionAtAddress t address relocated = None"
    by (simp add: getFunctionAtAddress_def)
qed

theorem empty_function_never_found_witness:
  "getFunctionAtAddress \<lparr>symbols = [empty_function, scenario_foo 0x9000], sections = []\<rparr>
       0x9050 True = Some (scenario_foo 0x9000)
   \<and> sym_size (scenario_foo 0x9000) \<noteq> 0
   \<and> sym_type empty_function = Function \<and> sym_size empty_function = 0
   \<and> getFunctionAtAddress \<lparr>symbols = [empty_function], sections = []\<rparr> 0x60 False = None
   \<and> getFunctionAtAddress \<lparr>symbols = [empty_function], sections = []\<rparr> 0x60 True = None"
proof -
  have found: "getFunctionAtAddress
       \<lparr>symbols = [empty_function, scenario_foo 0x9000], sections = []\<rparr> 0x9050 True
      = Some (scenario_foo 0x9000)"
    by (simp add: getFunctionAtAddress_def functionAt_def symAddress_def empty_function_def
        scenario_foo_def)
  have e: "sym_type empty_function = Function \<and> sym_size empty_function = 0"
    by (simp add: empty_function_def)
  from empty_function_never_found
    [of "\<lparr>symbols = [empty_function, scenario_foo 0x9000], sections = []\<rparr>" "0x9050" True
        "scenario_foo 0x9000"] found
  have 1: "sym_size (scenario_foo 0x9000) \<noteq> 0" by simp
  from empty_function_never_found
    [of "\<lparr>symbols = [empty_function], sections = []\<rparr>" "0x60" False] e
  have 2: "getFunctionAtAddress \<lparr>symbols = [empty_function], sections = []\<rparr> 0x60 False = None"
    by simp
  from empty_function_never_found
    [of "\<lparr>symbols = [empty_function], sections = []\<rparr>" "0x60" True] e
  have 3: "getFunctionAtAddress \<lparr>symbols = [empty_function], sections = []\<rparr> 0x60 True = None"
    by simp
  from found e 1 2 3 show ?thesis by simp
qed

text \<open>
  Claim C7. \<open>getFunctionByName\<close> returns the first function of the table that is local,
  has the name and has the file asked for (a symbol without a file never equals the
  file asked for, nor does any symbol when no file is given); when there is none, the
  first function of that name whose scope is not local; when there is none either,
  \<open>None\<close>. In a table whose functions of the name \<open>helper\<close> are \<open>l\<close>, local to \<open>a.c\<close>, and
  \<open>g\<close>, global, the query with \<open>a.c\<close> returns \<open>l\<close> and the query with \<open>b.c\<close> returns \<open>g\<close>.
\<close>

theorem function_by_name:
  "getFunctionByName t name file =
     (case find (\<lambda>s. sym_type s = Function \<and> sym_scope s = Local \<and> sym_name s = name
                      \<and> sym_file s \<noteq> None \<and> sym_file s = file) (symbols t) of
        Some s \<Rightarrow> Some s
      | None \<Rightarrow>
          find (\<lambda>s. sym_type s = Function \<and> sym_scope s \<noteq> Local \<and> sym_name s = name)
            (symbols t))
   \<and> (l \<in> set (symbols t) \<and> g \<in> set (symbols t)
      \<and> sym_type l = Function \<and> sym_scope l = Local \<and> sym_name l = ''helper''
      \<and> sym_file l = Some ''a.c''
      \<and> sym_type g = Function \<and> sym_scope g = Global \<and> sym_name g = ''helper''
      \<and> (\<forall>s\<in>set (symbols t).
            sym_type s = Function \<and> sym_name s = ''helper'' \<longrightarrow> s = l \<or> s = g)
      \<longrightarrow> getFunctionByName t ''helper'' (Some ''a.c'') = Some l
        \<and> getFunctionByName t ''helper'' (Some ''b.c'') = Some g)"
proof (intro conjI impI)
  have same: "sameFile f file \<longleftrightarrow> f \<noteq> None \<and> f = file" for f
    by (auto simp: sameFile_def split: option.splits)
  have 1: "(case filter P xs of s # _ \<Rightarrow> Some s | [] \<Rightarrow> r) = (case find P xs of Some s \<Rightarrow> Some s | None \<Rightarrow> r)"
    for P :: "SymbolInformation \<Rightarrow> bool" and xs r
    by (induction xs) auto
  show "getFunctionByName t name file =
     (case find (\<lambda>s. sym_type s = Function \<and> sym_scope s = Local \<and> sym_name s = name
                      \<and> sym_file s \<noteq> None \<and> sym_file s = file) (symbols t) of
        Some s \<Rightarrow> Some s
      | None \<Rightarrow>
          find (\<lambda>s. sym_type s = Function \<and> sym_scope s \<noteq> Local \<and> sym_name s = name)
            (symbols t))"
    unfolding getFunctionByName_def 1 same
    by (simp split: option.splits)
next
  assume a: "l \<in> set (symbols t) \<and> g \<in> set (symbols t)
      \<and> sym_type l = Function \<and> sym_scope l = Local \<and> sym_name l = ''helper''
      \<and> sym_file l = Some ''a.c''
      \<and> sym_type g = Function \<and> sym_scope g = Global \<and> sym_name g = ''helper''
      \<and> (\<forall>s\<in>set (symbols t).
            sym_type s = Function \<and> sym_name s = ''helper'' \<longrightarrow> s = l \<or> s = g)"
  let ?L = "\<lambda>f s. sym_type s = Function \<and> sym_scope s = Local \<and> sym_name s = ''helper''
                      \<and> sameFile (sym_file s) (Some f)"
  let ?G = "\<lambda>s. sym_type s = Function \<and> sym_scope s \<noteq> Local \<and> sym_name s = ''helper''"
  have La: "filter (?L ''a.c'') (symbols t) \<noteq> []"
  proof -
    from a have "l \<in> set (filter (?L ''a.c'') (symbols t))" by (simp add: sameFile_def)
    then show ?thesis by (metis empty_iff empty_set)
  qed
  then obtain x xs where x: "filter (?L ''a.c'') (symbols t) = x # xs"
    by (cases "filter (?L ''a.c'') (symbols t)") auto
  from filter_head [OF x] a have "x = l" by auto
  with x show "getFunctionByName t ''helper'' (Some ''a.c'') = Some l"
    by (simp add: getFunctionByName_def)
  have Lb: "filter (?L ''b.c'') (symbols t) = []"
  proof (rule ccontr)
    assume "filter (?L ''b.c'') (symbols t) \<noteq> []"
    then obtain y ys where "filter (?L ''b.c'') (symbols t) = y # ys"
      by (cases "filter (?L ''b.c'') (symbols t)") auto
    from filter_head [OF this] a show False by (auto simp: sameFile_def)
  qed
  have "filter ?G (symbols t) \<noteq> []"
  proof -
    from a have "g \<in> set (filter ?G (symbols t))" by simp
    then show ?thesis by (metis empty_iff empty_set)
  qed
  then obtain z zs where z: "filter ?G (symbols t) = z # zs"
    by (cases "filter ?G (symbols t)") auto
  from filter_head [OF z] a have "z = g" by auto
  with z Lb show "getFunctionByName t ''helper'' (Some ''b.c'') = Some g"
    by (simp add: getFunctionByName_def)
qed

theorem function_by_name_witness:
  "getFunctionByName \<lparr>symbols = [helper_global, helper_local], sections = []\<rparr>
       ''helper'' (Some ''a.c'') = Some helper_local
   \<and> getFunctionByName \<lparr>symbols = [helper_global, helper_local], sections = []\<rparr>
       ''helper'' (Some ''b.c'') = Some helper_global
   \<and> sym_scope helper_local = Local \<and> sym_file helper_local = Some ''a.c''
   \<and> sym_scope helper_global = Global"
  using function_by_name
    [of "\<lparr>symbols = [helper_global, helper_local], sections = []\<rparr>" _ _ helper_local helper_global]
  by (simp add: helper_local_def helper_global_def)

subsection \<open>\<open>getRelocatedSections\<close>\<close>

lemma isAllocated_iff: "isAllocated flags sz \<longleftrightarrow> ''ALLOC'' \<in> set flags \<and> sz \<noteq> 0"
  by (auto simp: isAllocated_def find_None_iff)

lemma isAllocated_qualifying:
  "isAllocated (flagArrays st (o_flags (sectionObjects st r))) (o_size (sectionObjects st r))
     = qualifying st r"
  by (simp add: isAllocated_iff qualifying_def)

text \<open>The store after one more record.\<close>

lemma newSectionObject_simps [simp]:
  "snd (newSectionObject obj st) = allocated st"
  "allocated (fst (newSectionObject obj st)) = Suc (allocated st)"
  "flagArrays (fst (newSectionObject obj st)) = flagArrays st"
  "symbolObjects (fst (newSectionObject obj st)) = symbolObjects st"
  "this_sections (fst (newSectionObject obj st)) = this_sections st"
  "this_symbols (fst (newSectionObject obj st)) = this_symbols st"
  "sectionObjects (fst (newSectionObject obj st)) r
     = (if r = allocated st then obj else sectionObjects st r)"
  by (simp_all add: newSectionObject_def)

lemma qualifying_newSectionObject:
  "r < allocated st \<Longrightarrow> qualifying (fst (newSectionObject obj st)) r = qualifying st r"
  by (simp add: qualifying_def)

text \<open>One step of the loop, with the test and the new record named.\<close>

lemma loop_Cons:
  "getRelocatedSections_loop bases (r # rest) st count out =
     getRelocatedSections_loop bases rest (fst (newSectionObject (pushed bases st count r) st))
       (if qualifying st r then count + 1 else count) (out @ [allocated st])"
  by (simp add: Let_def isAllocated_qualifying pushed_def newSectionObject_def)

lemma loop_count:
  "\<forall>r\<in>set rs. r < allocated st \<Longrightarrow>
   fst (snd (getRelocatedSections_loop bases rs st count out))
     = count + length (filter (qualifying st) rs)"
proof (induction rs arbitrary: st count out)
  case Nil
  show ?case by simp
next
  case (Cons r rest)
  let ?st = "fst (newSectionObject (pushed bases st count r) st)"
  from Cons.prems have "\<forall>x\<in>set rest. x < allocated ?st" by auto
  from Cons.IH [OF this]
  have "fst (snd (getRelocatedSections_loop bases (r # rest) st count out))
      = (if qualifying st r then count + 1 else count) + length (filter (qualifying ?st) rest)"
    by (simp only: loop_Cons)
  moreover from Cons.prems have "filter (qualifying ?st) rest = filter (qualifying st) rest"
    by (intro filter_cong) (auto simp: qualifying_newSectionObject)
  ultimately show ?case by simp
qed

lemma loop_out:
  "snd (snd (getRelocatedSections_loop bases rs st count out))
     = out @ [allocated st ..< allocated st + length rs]"
proof (induction rs arbitrary: st count out)
  case Nil
  show ?case by simp
next
  case (Cons r rest)
  show ?case
    by (simp only: loop_Cons Cons.IH) (simp add: upt_rec)
qed

lemma loop_frame:
  "allocated (fst (getRelocatedSections_loop bases rs st count out)) = allocated st + length rs
   \<and> flagArrays (fst (getRelocatedSections_loop bases rs st count out)) = flagArrays st
   \<and> symbolObjects (fst (getRelocatedSections_loop bases rs st count out)) = symbolObjects st
   \<and> this_sections (fst (getRelocatedSections_loop bases rs st count out)) = this_sections st
   \<and> this_symbols (fst (getRelocatedSections_loop bases rs st count out)) = this_symbols st
   \<and> (\<forall>r<allocated st.
        sectionObjects (fst (getRelocatedSections_loop bases rs st count out)) r
          = sectionObjects st r)"
proof (induction rs arbitrary: st count out)
  case Nil
  show ?case by simp
next
  case (Cons r rest)
  let ?st = "fst (newSectionObject (pushed bases st count r) st)"
  let ?count = "if qualifying st r then count + 1 else count"
  note IH = Cons.IH [of ?st ?count "out @ [allocated st]"]
  have "\<forall>x<allocated st.
          sectionObjects (fst (getRelocatedSections_loop bases rest ?st ?count
             (out @ [allocated st]))) x = sectionObjects st x"
  proof (intro allI impI)
    fix x assume x: "x < allocated st"
    then have "x < allocated ?st" by simp
    with IH have "sectionObjects (fst (getRelocatedSections_loop bases rest ?st ?count
             (out @ [allocated st]))) x = sectionObjects ?st x"
      by blast
    with x show "sectionObjects (fst (getRelocatedSections_loop bases rest ?st ?count
             (out @ [allocated st]))) x = sectionObjects st x"
      by simp
  qed
  with IH show ?case
    by (simp only: loop_Cons) simp
qed

lemma loop_objects:
  "\<forall>r\<in>set rs. r < allocated st \<Longrightarrow> i < length rs \<Longrightarrow>
   sectionObjects (fst (getRelocatedSections_loop bases rs st count out)) (allocated st + i)
     = pushed bases st (count + length (filter (qualifying st) (take i rs))) (rs ! i)"
proof (induction rs arbitrary: st count out i)
  case Nil
  then show ?case by simp
next
  case (Cons r rest)
  let ?obj = "pushed bases st count r"
  let ?st = "fst (newSectionObject ?obj st)"
  let ?count = "if qualifying st r then count + 1 else count"
  have below: "\<forall>x\<in>set rest. x < allocated ?st" using Cons.prems(1) by auto
  show ?case
  proof (cases i)
    case 0
    have "sectionObjects (fst (getRelocatedSections_loop bases rest ?st ?count (out @ [allocated st])))
            (allocated st) = sectionObjects ?st (allocated st)"
      using loop_frame [of bases rest ?st ?count "out @ [allocated st]"] by simp
    with 0 show ?thesis by (simp only: loop_Cons) simp
  next
    case (Suc k)
    with Cons.prems have k: "k < length rest" by simp
    have same: "qualifying ?st x = qualifying st x" if "x \<in> set rest" for x
      using that Cons.prems(1) by (simp add: qualifying_newSectionObject)
    have "filter (qualifying ?st) (take k rest) = filter (qualifying st) (take k rest)"
      by (intro filter_cong) (auto dest: in_set_takeD simp: same)
    moreover have "pushed bases ?st c (rest ! k) = pushed bases st c (rest ! k)" for c
    proof -
      from k Cons.prems(1) have "rest ! k < allocated st" by simp
      with k same [of "rest ! k"] show ?thesis by (simp add: pushed_def)
    qed
    ultimately show ?thesis
      using Cons.IH [OF below k, of ?count "out @ [allocated st]"] Suc
      by (simp only: loop_Cons) (auto simp: ac_simps)
  qed
qed


lemma filter_take_less:
  "i < length xs \<Longrightarrow> P (xs ! i) \<Longrightarrow> length (filter P (take i xs)) < length (filter P xs)"
proof -
  assume i: "i < length xs" and p: "P (xs ! i)"
  from i have "xs = take i xs @ xs ! i # drop (Suc i) xs" by (rule id_take_nth_drop)
  then have "filter P xs = filter P (take i xs) @ filter P (xs ! i # drop (Suc i) xs)"
    by (metis filter_append)
  with p show ?thesis by simp
qed

lemma getRelocatedSections_parts:
  assumes "sectionsInUse st"
  shows "snd (getRelocatedSections bases st) =
           (if length (filter (qualifying st) (this_sections st)) \<noteq> length bases
            then Inl (SectionsMismatch (length bases)
                        (length (filter (qualifying st) (this_sections st))))
            else Inr [allocated st ..< allocated st + length (this_sections st)])"
    and "fst (getRelocatedSections bases st)
           = fst (getRelocatedSections_loop bases (this_sections st) st 0 [])"
proof -
  from assms have below: "\<forall>r\<in>set (this_sections st). r < allocated st"
    by (simp add: sectionsInUse_def list_all_iff)
  obtain st' count out where
    l: "getRelocatedSections_loop bases (this_sections st) st 0 [] = (st', count, out)"
    by (cases "getRelocatedSections_loop bases (this_sections st) st 0 []") auto
  from loop_count [OF below, of bases 0 "[]"] l
  have c: "count = length (filter (qualifying st) (this_sections st))" by simp
  from loop_out [of bases "this_sections st" st 0 "[]"] l
  have out: "out = [allocated st ..< allocated st + length (this_sections st)]" by simp
  from l c out
  show "snd (getRelocatedSections bases st) =
           (if length (filter (qualifying st) (this_sections st)) \<noteq> length bases
            then Inl (SectionsMismatch (length bases)
                        (length (filter (qualifying st) (this_sections st))))
            else Inr [allocated st ..< allocated st + length (this_sections st)])"
    by (simp add: getRelocatedSections_def)
  from l show "fst (getRelocatedSections bases st)
           = fst (getRelocatedSections_loop bases (this_sections st) st 0 [])"
    by (simp add: getRelocatedSections_def)
qed

text \<open>
  Claim C4. \<open>getRelocatedSections\<close> fails, with the error \<open>SectionsMismatch\<close> that carries
  both numbers, exactly when the length of the array of addresses differs from the number
  of stored sections that have the flag \<open>ALLOC\<close> and a size that is not 0. Otherwise it
  returns one record for each stored section, in the order of the table: the record is
  the section with its address replaced, by the element of the array at the number of
  qualifying sections before it when the section qualifies, and by its vma when it does
  not.
\<close>

theorem relocated_sections_count:
  assumes "sectionsInUse st"
  shows "(snd (getRelocatedSections bases st)
            = Inl (SectionsMismatch (length bases)
                     (length (filter (qualifying st) (this_sections st))))
          \<longleftrightarrow> length bases \<noteq> length (filter (qualifying st) (this_sections st)))
       \<and> (length bases = length (filter (qualifying st) (this_sections st))
          \<longrightarrow> (\<exists>out. snd (getRelocatedSections bases st) = Inr out
                 \<and> length out = length (this_sections st)
                 \<and> (\<forall>i<length out.
                      sectionObjects (fst (getRelocatedSections bases st)) (out ! i)
                        = (sectionObjects st (this_sections st ! i))
                            \<lparr>o_address :=
                               Some (if qualifying st (this_sections st ! i)
                                     then uint (bases ! length (filter (qualifying st)
                                                  (take i (this_sections st))))
                                     else o_vma (sectionObjects st (this_sections st ! i)))\<rparr>)))"
proof (rule conjI)
  show "snd (getRelocatedSections bases st)
            = Inl (SectionsMismatch (length bases)
                     (length (filter (qualifying st) (this_sections st))))
          \<longleftrightarrow> length bases \<noteq> length (filter (qualifying st) (this_sections st))"
    by (auto simp: getRelocatedSections_parts(1) [OF assms])
next
  let ?secs = "this_sections st"
  from assms have below: "\<forall>r\<in>set ?secs. r < allocated st"
    by (simp add: sectionsInUse_def list_all_iff)
  show "length bases = length (filter (qualifying st) ?secs)
          \<longrightarrow> (\<exists>out. snd (getRelocatedSections bases st) = Inr out
                 \<and> length out = length ?secs
                 \<and> (\<forall>i<length out.
                      sectionObjects (fst (getRelocatedSections bases st)) (out ! i)
                        = (sectionObjects st (?secs ! i))
                            \<lparr>o_address :=
                               Some (if qualifying st (?secs ! i)
                                     then uint (bases ! length (filter (qualifying st)
                                                  (take i ?secs)))
                                     else o_vma (sectionObjects st (?secs ! i)))\<rparr>))"
  proof
    assume n: "length bases = length (filter (qualifying st) ?secs)"
    let ?out = "[allocated st ..< allocated st + length ?secs]"
    have res: "snd (getRelocatedSections bases st) = Inr ?out"
      using n by (simp add: getRelocatedSections_parts(1) [OF assms])
    have objs: "sectionObjects (fst (getRelocatedSections bases st)) (?out ! i)
                        = (sectionObjects st (?secs ! i))
                            \<lparr>o_address :=
                               Some (if qualifying st (?secs ! i)
                                     then uint (bases ! length (filter (qualifying st)
                                                  (take i ?secs)))
                                     else o_vma (sectionObjects st (?secs ! i)))\<rparr>"
      if i: "i < length ?secs" for i
    proof -
      have "sectionObjects (fst (getRelocatedSections bases st)) (allocated st + i)
              = pushed bases st (length (filter (qualifying st) (take i ?secs))) (?secs ! i)"
        using loop_objects [OF below i, of bases 0 "[]"]
        by (simp add: getRelocatedSections_parts(2) [OF assms])
      moreover have "readUint32 bases (length (filter (qualifying st) (take i ?secs)))
              = Some (uint (bases ! length (filter (qualifying st) (take i ?secs))))"
        if "qualifying st (?secs ! i)"
        using filter_take_less [OF i, of "qualifying st"] that n
        by (simp add: readUint32_def)
      ultimately show ?thesis using i by (auto simp: pushed_def)
    qed
    from res objs show "\<exists>out. snd (getRelocatedSections bases st) = Inr out
                 \<and> length out = length ?secs
                 \<and> (\<forall>i<length out.
                      sectionObjects (fst (getRelocatedSections bases st)) (out ! i)
                        = (sectionObjects st (?secs ! i))
                            \<lparr>o_address :=
                               Some (if qualifying st (?secs ! i)
                                     then uint (bases ! length (filter (qualifying st)
                                                  (take i ?secs)))
                                     else o_vma (sectionObjects st (?secs ! i)))\<rparr>)"
      by (intro exI [of _ ?out]) simp
  qed
qed

lemma sectionOf_frame:
  assumes "flagArrays st' = flagArrays st" and "sectionObjects st' r = sectionObjects st r"
  shows "sectionOf st' r = sectionOf st r"
  unfolding sectionOf_def assms ..

lemma tableOf_frame:
  assumes "flagArrays st' = flagArrays st" "symbolObjects st' = symbolObjects st"
    and "this_sections st' = this_sections st" "this_symbols st' = this_symbols st"
    and "\<forall>r\<in>set (this_sections st). sectionObjects st' r = sectionObjects st r"
  shows "tableOf st' = tableOf st"
proof -
  have "map (sectionOf st') (this_sections st) = map (sectionOf st) (this_sections st)"
  proof (rule map_cong [OF refl])
    fix r assume "r \<in> set (this_sections st)"
    with assms(5) have "sectionObjects st' r = sectionObjects st r" by blast
    with assms(1) show "sectionOf st' r = sectionOf st r" by (rule sectionOf_frame)
  qed
  then show ?thesis unfolding tableOf_def assms(2,3,4) by (simp only:)
qed


text \<open>
  Claim C10. \<open>getRelocatedSections\<close> is a pure read. Whether it fails or not, the table
  holds the same references to sections and symbols afterwards, every symbol object,
  every flag array and every section object in use (the stored sections among them) is
  as before, and so is the table read off the store. When it succeeds, the references
  it returns are distinct and were not in use before, so none is a reference to a stored
  section, and each refers to a record with the members of the stored section at the
  same index, the address apart.
\<close>

theorem relocated_sections_pure:
  assumes "sectionsInUse st"
  shows "this_sections (fst (getRelocatedSections bases st)) = this_sections st
       \<and> this_symbols (fst (getRelocatedSections bases st)) = this_symbols st
       \<and> symbolObjects (fst (getRelocatedSections bases st)) = symbolObjects st
       \<and> flagArrays (fst (getRelocatedSections bases st)) = flagArrays st
       \<and> (\<forall>r<allocated st.
            sectionObjects (fst (getRelocatedSections bases st)) r = sectionObjects st r)
       \<and> (\<forall>r\<in>set (this_sections st).
            sectionObjects (fst (getRelocatedSections bases st)) r = sectionObjects st r)
       \<and> tableOf (fst (getRelocatedSections bases st)) = tableOf st
       \<and> (\<forall>out. snd (getRelocatedSections bases st) = Inr out
            \<longrightarrow> distinct out \<and> length out = length (this_sections st)
               \<and> (\<forall>r\<in>set out. allocated st \<le> r \<and> r \<notin> set (this_sections st))
               \<and> (\<forall>i<length out.
                    (sectionObjects (fst (getRelocatedSections bases st)) (out ! i))
                        \<lparr>o_address := None\<rparr>
                      = (sectionObjects st (this_sections st ! i))\<lparr>o_address := None\<rparr>))"
proof -
  let ?st' = "fst (getRelocatedSections bases st)"
  let ?secs = "this_sections st"
  from assms have below: "\<forall>r\<in>set ?secs. r < allocated st"
    by (simp add: sectionsInUse_def list_all_iff)
  note frame = loop_frame [of bases ?secs st 0 "[]",
      folded getRelocatedSections_parts(2) [OF assms, of bases]]
  from frame have f1: "this_sections ?st' = this_sections st" by (elim conjE)
  from frame have f2: "this_symbols ?st' = this_symbols st" by (elim conjE)
  from frame have f3: "symbolObjects ?st' = symbolObjects st" by (elim conjE)
  from frame have f4: "flagArrays ?st' = flagArrays st" by (elim conjE)
  from frame have f5: "\<forall>r<allocated st. sectionObjects ?st' r = sectionObjects st r"
    by (elim conjE)
  from f5 below have stored: "\<forall>r\<in>set ?secs. sectionObjects ?st' r = sectionObjects st r"
    by blast
  from f4 f3 f1 f2 stored have table: "tableOf ?st' = tableOf st"
    by (rule tableOf_frame)
  have fresh: "\<forall>out. snd (getRelocatedSections bases st) = Inr out
            \<longrightarrow> distinct out \<and> length out = length ?secs
               \<and> (\<forall>r\<in>set out. allocated st \<le> r \<and> r \<notin> set ?secs)
               \<and> (\<forall>i<length out.
                    (sectionObjects ?st' (out ! i))\<lparr>o_address := None\<rparr>
                      = (sectionObjects st (?secs ! i))\<lparr>o_address := None\<rparr>)"
  proof (intro allI impI)
    fix out assume res: "snd (getRelocatedSections bases st) = Inr out"
    then have out: "out = [allocated st ..< allocated st + length ?secs]"
      by (simp add: getRelocatedSections_parts(1) [OF assms] split: if_splits)
    have copy: "(sectionObjects ?st' (out ! i))\<lparr>o_address := None\<rparr>
            = (sectionObjects st (?secs ! i))\<lparr>o_address := None\<rparr>"
      if i: "i < length ?secs" for i
      using loop_objects [OF below i, of bases 0 "[]"] i out
      by (simp add: getRelocatedSections_parts(2) [OF assms] pushed_def)
    from out have d: "distinct out" and l: "length out = length ?secs" by simp_all
    from out below have fr: "\<forall>r\<in>set out. allocated st \<le> r \<and> r \<notin> set ?secs"
      by auto
    from copy l have "\<forall>i<length out.
                    (sectionObjects ?st' (out ! i))\<lparr>o_address := None\<rparr>
                      = (sectionObjects st (?secs ! i))\<lparr>o_address := None\<rparr>"
      by simp
    with d l fr show "distinct out \<and> length out = length ?secs
               \<and> (\<forall>r\<in>set out. allocated st \<le> r \<and> r \<notin> set ?secs)
               \<and> (\<forall>i<length out.
                    (sectionObjects ?st' (out ! i))\<lparr>o_address := None\<rparr>
                      = (sectionObjects st (?secs ! i))\<lparr>o_address := None\<rparr>)"
      by (intro conjI)
  qed
  from f1 f2 f3 f4 f5 stored table fresh show ?thesis by (intro conjI)
qed


lemma two_sections_in_use: "sectionsInUse two_sections"
  by (simp add: sectionsInUse_def two_sections_def)

lemma two_sections_qualifying:
  "qualifying two_sections 0" "\<not> qualifying two_sections 1"
  by (simp_all add: qualifying_def two_sections_def text_object_def comment_object_def)

lemma two_sections_count:
  "length (filter (qualifying two_sections) (this_sections two_sections)) = 1"
  using two_sections_qualifying by (simp add: two_sections_def)

lemma two_sections_relocated:
  "snd (getRelocatedSections [0x9000] two_sections) = Inr [4, 5]"
  "sectionObjects (fst (getRelocatedSections [0x9000] two_sections)) 4
     = text_object\<lparr>o_address := Some 0x9000\<rparr>"
  "sectionObjects (fst (getRelocatedSections [0x9000] two_sections)) 5
     = comment_object\<lparr>o_address := Some 0\<rparr>"
  "sectionObjects (fst (getRelocatedSections [0x9000] two_sections)) 0 = text_object"
  "sectionObjects (fst (getRelocatedSections [0x9000] two_sections)) 1 = comment_object"
  by (simp_all add: getRelocatedSections_def Let_def isAllocated_def newSectionObject_def
      readUint32_def two_sections_def text_object_def comment_object_def)

theorem relocated_sections_count_witness:
  "sectionsInUse two_sections
   \<and> length (filter (qualifying two_sections) (this_sections two_sections)) = 1
   \<and> snd (getRelocatedSections [] two_sections) = Inl (SectionsMismatch 0 1)
   \<and> snd (getRelocatedSections [0x9000, 0xA000] two_sections) = Inl (SectionsMismatch 2 1)
   \<and> snd (getRelocatedSections [0x9000] two_sections) = Inr [4, 5]
   \<and> sectionObjects (fst (getRelocatedSections [0x9000] two_sections)) 4
       = text_object\<lparr>o_address := Some 0x9000\<rparr>
   \<and> sectionObjects (fst (getRelocatedSections [0x9000] two_sections)) 5
       = comment_object\<lparr>o_address := Some (o_vma comment_object)\<rparr>"
proof -
  from relocated_sections_count [OF two_sections_in_use, of "[]"] two_sections_count
  have 0: "snd (getRelocatedSections [] two_sections) = Inl (SectionsMismatch 0 1)"
    by simp
  from relocated_sections_count [OF two_sections_in_use, of "[0x9000, 0xA000]"]
    two_sections_count
  have 2: "snd (getRelocatedSections [0x9000, 0xA000] two_sections)
             = Inl (SectionsMismatch 2 1)"
    by simp
  from 0 2 two_sections_in_use two_sections_count two_sections_relocated show ?thesis
    by (simp add: comment_object_def)
qed

lemma two_sections_table:
  "tableOf two_sections =
     Some \<lparr>symbols = [],
           sections =
             [\<lparr>sec_name = ''.text'', sec_address = 0, sec_size = 0x100, sec_vma = 0x1000,
               sec_lma = 0x1000, sec_fileOffset = 0x34, sec_align = 4,
               sec_flags = [''CONTENTS'', ''ALLOC'', ''LOAD'', ''CODE'']\<rparr>,
              \<lparr>sec_name = ''.comment'', sec_address = 0, sec_size = 0x12, sec_vma = 0,
               sec_lma = 0, sec_fileOffset = 0x134, sec_align = 1,
               sec_flags = [''CONTENTS'', ''READONLY'']\<rparr>]\<rparr>"
  by (simp add: tableOf_def sectionOf_def two_sections_def text_object_def comment_object_def)

theorem relocated_sections_pure_witness:
  "sectionsInUse two_sections
   \<and> this_sections (fst (getRelocatedSections [0x9000] two_sections)) = [0, 1]
   \<and> sectionObjects (fst (getRelocatedSections [0x9000] two_sections)) 0 = text_object
   \<and> sectionObjects (fst (getRelocatedSections [0x9000] two_sections)) 1 = comment_object
   \<and> sectionObjects (fst (getRelocatedSections [] two_sections)) 0 = text_object
   \<and> sectionObjects (fst (getRelocatedSections [] two_sections)) 1 = comment_object
   \<and> tableOf (fst (getRelocatedSections [0x9000] two_sections)) = tableOf two_sections
   \<and> tableOf (fst (getRelocatedSections [] two_sections)) = tableOf two_sections
   \<and> snd (getRelocatedSections [0x9000] two_sections) = Inr [4, 5]
   \<and> distinct [4, 5 :: nat] \<and> (4 :: nat) \<notin> set [0, 1] \<and> (5 :: nat) \<notin> set [0, 1]"
proof -
  note P = relocated_sections_pure [OF two_sections_in_use]
  from P [of "[0x9000]"]
  have a: "this_sections (fst (getRelocatedSections [0x9000] two_sections)) = [0, 1]"
    by (simp add: two_sections_def)
  from P [of "[0x9000]"]
  have b: "sectionObjects (fst (getRelocatedSections [0x9000] two_sections)) 0 = text_object
         \<and> sectionObjects (fst (getRelocatedSections [0x9000] two_sections)) 1 = comment_object"
    by (simp add: two_sections_def)
  from P [of "[]"]
  have c: "sectionObjects (fst (getRelocatedSections [] two_sections)) 0 = text_object
         \<and> sectionObjects (fst (getRelocatedSections [] two_sections)) 1 = comment_object"
    by (simp add: two_sections_def)
  from P [of "[0x9000]"]
  have d: "tableOf (fst (getRelocatedSections [0x9000] two_sections)) = tableOf two_sections"
    by (elim conjE)
  from P [of "[]"]
  have e: "tableOf (fst (getRelocatedSections [] two_sections)) = tableOf two_sections"
    by (elim conjE)
  from a b c d e two_sections_in_use two_sections_relocated(1) show ?thesis by simp
qed

end
